theory Spec2Isabelle
  imports Main "HOL-Library.Word"
begin

unbundle bit_operations_syntax

section \<open>Bytes, buffers and JavaScript strings\<close>

text \<open>
  A Node \<open>Buffer\<close> is a list of bytes. A JavaScript string is the list of its Unicode code
  points (V8 stores UTF-16 code units; every operation modelled here -- concatenation,
  \<open>startsWith\<close>, the three title regular expressions, UTF-8 conversion -- gives the same
  result on code points as on code units).
\<close>

type_synonym byte = "8 word"
type_synonym jsstring = "nat list"

definition js :: "string \<Rightarrow> jsstring" where
  "js s = map of_char s"

text \<open>\<open>buf.slice(a, b)\<close> and \<open>buf.slice(a)\<close> for \<open>0 \<le> a\<close>, \<open>0 \<le> b\<close>: both clamp to the buffer.\<close>

definition slice :: "'a list \<Rightarrow> nat \<Rightarrow> nat \<Rightarrow> 'a list" where
  "slice buf a b = take (b - a) (drop a buf)"

definition slice_from :: "'a list \<Rightarrow> nat \<Rightarrow> 'a list" where
  "slice_from buf a = drop a buf"

subsection \<open>Numbers\<close>

text \<open>
  JavaScript numbers are IEEE doubles. The decoder only ever holds non-negative integers in
  them, so a number is modelled by the natural number it denotes, and the one place where a
  double cannot hold the exact value (\<open>Number(bigint)\<close> and the sum \<open>offset + maskLen +
  payloadLen\<close> at or above \<open>2^53\<close>) rounds to the nearest double, ties to even.
\<close>

fun bit_length :: "nat \<Rightarrow> nat" where
  "bit_length n = (if n = 0 then 0 else Suc (bit_length (n div 2)))"

declare bit_length.simps [simp del]

definition to_double :: "nat \<Rightarrow> nat" where
  "to_double n =
     (if n < 2 ^ 53 then n
      else let e = bit_length n - 53;
               q = n div 2 ^ e;
               r = n mod 2 ^ e;
               half = 2 ^ (e - 1)
           in if half < r \<or> (r = half \<and> odd q) then (q + 1) * 2 ^ e else q * 2 ^ e)"

subsection \<open>UTF-8\<close>

text \<open>
  \<open>Buffer.from(str, 'utf8')\<close>: every code point becomes one to four bytes; a lone surrogate
  (and anything that is no code point at all) becomes the three bytes of U+FFFD.
\<close>

definition utf8_encode_cp :: "nat \<Rightarrow> byte list" where
  "utf8_encode_cp c =
     (if c < 0x80 then [of_nat c]
      else if c < 0x800 then [of_nat (0xC0 + c div 64), of_nat (0x80 + c mod 64)]
      else if (0xD800 \<le> c \<and> c < 0xE000) \<or> 0x110000 \<le> c then [0xEF, 0xBF, 0xBD]
      else if c < 0x10000 then
        [of_nat (0xE0 + c div 4096), of_nat (0x80 + (c div 64) mod 64), of_nat (0x80 + c mod 64)]
      else
        [of_nat (0xF0 + c div 262144), of_nat (0x80 + (c div 4096) mod 64),
         of_nat (0x80 + (c div 64) mod 64), of_nat (0x80 + c mod 64)])"

definition utf8_encode :: "jsstring \<Rightarrow> byte list" where
  "utf8_encode s = concat (map utf8_encode_cp s)"

text \<open>
  \<open>buf.toString('utf8')\<close> (also \<open>buf.toString()\<close>): the UTF-8 decoder of V8, which
  replaces every maximal ill-formed byte sequence by U+FFFD. \<open>needed\<close> is the number of
  continuation bytes still expected, \<open>cp\<close> the code point collected so far, \<open>lo\<close> and
  \<open>hi\<close> the range allowed for the next continuation byte. A byte that is no valid
  continuation ends the sequence with U+FFFD and is then decoded again as a first byte.
\<close>

fun utf8_dec :: "nat \<Rightarrow> nat \<Rightarrow> nat \<Rightarrow> nat \<Rightarrow> byte list \<Rightarrow> jsstring" where
  "utf8_dec needed cp lo hi [] = (if needed = 0 then [] else [0xFFFD])"
| "utf8_dec needed cp lo hi (b # bs) =
     (let v = unat b in
      if needed = 0 then
        (if v < 0x80 then v # utf8_dec 0 0 0x80 0xBF bs
         else if 0xC2 \<le> v \<and> v \<le> 0xDF then utf8_dec 1 (v mod 32) 0x80 0xBF bs
         else if 0xE0 \<le> v \<and> v \<le> 0xEF then
           utf8_dec 2 (v mod 16) (if v = 0xE0 then 0xA0 else 0x80) (if v = 0xED then 0x9F else 0xBF) bs
         else if 0xF0 \<le> v \<and> v \<le> 0xF4 then
           utf8_dec 3 (v mod 8) (if v = 0xF0 then 0x90 else 0x80) (if v = 0xF4 then 0x8F else 0xBF) bs
         else 0xFFFD # utf8_dec 0 0 0x80 0xBF bs)
      else if v < lo \<or> hi < v then 0xFFFD # utf8_dec 0 0 0x80 0xBF (b # bs)
      else if needed = 1 then (cp * 64 + v mod 64) # utf8_dec 0 0 0x80 0xBF bs
      else utf8_dec (needed - 1) (cp * 64 + v mod 64) 0x80 0xBF bs)"

definition toString :: "byte list \<Rightarrow> jsstring" where
  "toString buf = utf8_dec 0 0 0x80 0xBF buf"

section \<open>The frame codec: class MinimalWebSocket of bin/ghostty-web.js\<close>

record frame =
  fin :: bool
  opcode :: byte
  payload :: "byte list"

definition readUInt16BE :: "byte list \<Rightarrow> nat \<Rightarrow> nat" where
  "readUInt16BE buf off = unat (buf ! off) * 256 + unat (buf ! (off + 1))"

definition readBigUInt64BE :: "byte list \<Rightarrow> nat \<Rightarrow> nat" where
  "readBigUInt64BE buf off = foldl (\<lambda>acc b. acc * 256 + unat b) 0 (take 8 (drop off buf))"

text \<open>
  \<open>parseFrame\<close> reads \<open>this.buffer\<close> and, when it returns a frame, replaces the buffer by
  what follows the frame: the model returns the frame with the new buffer, and \<open>None\<close> for
  \<open>null\<close> (the buffer is then left as it was). \<open>parseFrame_body\<close> is the part of the
  function after the extended payload length has been read.
\<close>

definition parseFrame_body ::
  "byte list \<Rightarrow> bool \<Rightarrow> byte \<Rightarrow> bool \<Rightarrow> nat \<Rightarrow> nat \<Rightarrow> (frame \<times> byte list) option" where
  "parseFrame_body buffer fin_bit opc masked payloadLen offset =
     (let maskLen = (if masked then 4 else 0);
          totalLen = to_double (offset + maskLen + payloadLen)
      in if length buffer < totalLen then None
         else
           let pl =
             (if masked then
                (let mask = slice buffer offset (offset + 4);
                     maskedPayload = slice buffer (offset + 4) totalLen
                 in map (\<lambda>i. maskedPayload ! i XOR mask ! (i mod 4)) [0..<payloadLen])
              else slice buffer offset totalLen)
           in Some (\<lparr>fin = fin_bit, opcode = opc, payload = pl\<rparr>, slice_from buffer totalLen))"

definition parseFrame :: "byte list \<Rightarrow> (frame \<times> byte list) option" where
  "parseFrame buffer =
     (if length buffer < 2 then None
      else
        let byte1 = buffer ! 0;
            byte2 = buffer ! 1;
            fin_bit = (byte1 AND 0x80 \<noteq> 0);
            opc = byte1 AND 0x0f;
            masked = (byte2 AND 0x80 \<noteq> 0);
            payloadLen = unat (byte2 AND 0x7f)
        in if payloadLen = 126 then
             (if length buffer < 4 then None
              else parseFrame_body buffer fin_bit opc masked (readUInt16BE buffer 2) 4)
           else if payloadLen = 127 then
             (if length buffer < 10 then None
              else parseFrame_body buffer fin_bit opc masked
                     (to_double (readBigUInt64BE buffer 2)) 10)
           else parseFrame_body buffer fin_bit opc masked payloadLen 2)"

text \<open>
  \<open>send\<close>: \<open>writeUInt16BE\<close> and \<open>writeBigUInt64BE\<close> store the length big-endian. A
  Buffer is shorter than \<open>2^53\<close> bytes, so \<open>BigInt(len)\<close> always fits the eight bytes.
\<close>

definition writeUInt16BE :: "nat \<Rightarrow> byte list" where
  "writeUInt16BE n = [of_nat (n div 256), of_nat n]"

definition writeBigUInt64BE :: "nat \<Rightarrow> byte list" where
  "writeBigUInt64BE n = map (\<lambda>i. of_nat (n div 256 ^ (7 - i))) [0..<8]"

definition send_frame :: "byte list \<Rightarrow> byte list" where
  "send_frame pl =
     (let len = length pl
      in if len < 126 then [0x81, of_nat len] @ pl
         else if len < 65536 then [0x81, 126] @ writeUInt16BE len @ pl
         else [0x81, 127] @ writeBigUInt64BE len @ pl)"

definition send :: "jsstring \<Rightarrow> byte list" where
  "send data = send_frame (utf8_encode data)"

text \<open>\<open>sendPong\<close>: \<open>frame[1] = len\<close> stores \<open>len\<close> modulo 256, as every Buffer element does.\<close>

definition sendPong :: "byte list \<Rightarrow> byte list" where
  "sendPong data = [0x8a, of_nat (length data)] @ data"

text \<open>
  What the codec does to the outside: it hands a decoded text to the \<open>message\<close> listeners,
  writes bytes to the socket, or ends the socket. Errors of \<open>socket.write\<close> are caught and
  dropped by the source, so a write is only recorded.
\<close>

datatype ws_effect = Emit_message jsstring | Socket_write "byte list" | Socket_end

definition close :: "ws_effect list" where
  "close = [Socket_write [0x88, 0x00], Socket_end]"

lemma to_double_pos: "0 < n \<Longrightarrow> 0 < to_double n"
proof -
  assume n: "0 < n"
  show ?thesis
  proof (cases "n < 2 ^ 53")
    case True
    with n show ?thesis by (simp add: to_double_def)
  next
    case False
    have bl: "\<And>m. m < 2 ^ bit_length m"
    proof -
      fix m :: nat
      show "m < 2 ^ bit_length m"
      proof (induction m rule: bit_length.induct)
        case (1 n)
        show ?case
        proof (cases "n = 0")
          case True
          then show ?thesis by (simp add: bit_length.simps)
        next
          case False
          with 1 have "n div 2 < 2 ^ bit_length (n div 2)" by simp
          then have "n < 2 * 2 ^ bit_length (n div 2)" by linarith
          with False show ?thesis by (subst bit_length.simps) simp
        qed
      qed
    qed
    have lb: "\<And>m. 0 < m \<Longrightarrow> 2 ^ (bit_length m - 1) \<le> m"
    proof -
      fix m :: nat
      show "0 < m \<Longrightarrow> 2 ^ (bit_length m - 1) \<le> m"
      proof (induction m rule: bit_length.induct)
        case (1 n)
        show ?case
        proof (cases "n div 2 = 0")
          case True
          with 1(2) have "n = 1" by linarith
          then show ?thesis by (simp add: bit_length.simps)
        next
          case False
          with 1 have ih: "2 ^ (bit_length (n div 2) - 1) \<le> n div 2" by simp
          from False have "0 < bit_length (n div 2)" by (subst bit_length.simps) simp
          then have "(2::nat) ^ bit_length (n div 2) = 2 * 2 ^ (bit_length (n div 2) - 1)"
            by (cases "bit_length (n div 2)") simp_all
          with ih have "2 ^ bit_length (n div 2) \<le> n" by linarith
          with 1(2) show ?thesis by (subst bit_length.simps) simp
        qed
      qed
    qed
    define e where "e = bit_length n - 53"
    have "(2::nat) ^ 53 \<le> n" using False by simp
    also have "n < 2 ^ bit_length n" by (rule bl)
    finally have lt: "(2::nat) ^ 53 < 2 ^ bit_length n" .
    have "53 < bit_length n" by (rule power_less_imp_less_exp [OF _ lt]) simp
    then have "e \<le> bit_length n - 1" by (simp add: e_def)
    then have "(2::nat) ^ e \<le> 2 ^ (bit_length n - 1)" by (simp add: power_increasing)
    also have "\<dots> \<le> n" using n by (rule lb)
    finally have "0 < n div 2 ^ e" by (simp add: div_greater_zero_iff)
    then show ?thesis using False
      by (simp add: to_double_def Let_def e_def [symmetric])
  qed
qed

lemma parseFrame_body_shorter:
  assumes "parseFrame_body buffer f opc m n off = Some (fr, rest)" and "0 < off" and "buffer \<noteq> []"
  shows "length rest < length buffer"
proof -
  have "0 < to_double (off + (if m then 4 else 0) + n)"
    using assms(2) by (intro to_double_pos) simp
  with assms(1,3) show ?thesis
    by (auto simp: parseFrame_body_def Let_def slice_from_def split: if_splits)
qed

lemma parseFrame_shorter:
  assumes "parseFrame buffer = Some (fr, rest)"
  shows "length rest < length buffer"
proof -
  from assms have "buffer \<noteq> []" by (auto simp: parseFrame_def)
  with assms show ?thesis
    by (auto simp: parseFrame_def Let_def split: if_splits dest: parseFrame_body_shorter)
qed

text \<open>
  The \<open>while\<close> loop of \<open>handleData\<close>, on the buffer the new data has been appended to. It
  returns the buffer the loop leaves behind and what it did, in order. A CLOSE frame
  breaks the loop: what follows it stays in the buffer.
\<close>

function handle_frames :: "byte list \<Rightarrow> byte list \<times> ws_effect list" where
  "handle_frames buffer =
     (if 2 \<le> length buffer then
        (case parseFrame buffer of
           None \<Rightarrow> (buffer, [])
         | Some (fr, rest) \<Rightarrow>
             if opcode fr = 0x01 then
               (let (buffer', effs) = handle_frames rest
                in (buffer', Emit_message (toString (payload fr)) # effs))
             else if opcode fr = 0x08 then (rest, close)
             else if opcode fr = 0x09 then
               (let (buffer', effs) = handle_frames rest
                in (buffer', Socket_write (sendPong (payload fr)) # effs))
             else handle_frames rest)
      else (buffer, []))"
  by pat_completeness auto
termination
  by (relation "measure length") (auto dest: parseFrame_shorter)

declare handle_frames.simps [simp del]

definition handleData :: "byte list \<Rightarrow> byte list \<Rightarrow> byte list \<times> ws_effect list" where
  "handleData buffer data = handle_frames (buffer @ data)"

text \<open>
  The outbound encode algorithm as the specification words it, for any opcode: byte 1 is
  \<open>0x80 | opcode\<close>, then the length field, then the raw payload.
\<close>

definition spec_length_field :: "nat \<Rightarrow> byte list" where
  "spec_length_field len =
     (if len < 126 then [of_nat len]
      else if len < 65536 then 126 # writeUInt16BE len
      else 127 # writeBigUInt64BE len)"

definition spec_encode :: "byte \<Rightarrow> byte list \<Rightarrow> byte list" where
  "spec_encode opc pl = (0x80 OR opc) # spec_length_field (length pl) @ pl"

text \<open>
  Masking as a client applies it (RFC 6455, section 5.3), and the frame \<open>send\<close> builds for
  a payload turned into the masked frame a client would put on the wire: the MASK bit set
  in byte 2, the four key bytes after the length field, the payload XORed with the key.
\<close>

definition mask_payload :: "byte list \<Rightarrow> byte list \<Rightarrow> byte list" where
  "mask_payload key pl = map (\<lambda>i. pl ! i XOR key ! (i mod 4)) [0..<length pl]"

definition as_client_frame :: "byte list \<Rightarrow> byte list \<Rightarrow> byte list" where
  "as_client_frame key pl =
     (let f = send_frame pl;
          hlen = length f - length pl
      in [f ! 0, f ! 1 OR 0x80] @ slice f 2 hlen @ key @ mask_payload key (slice_from f hlen))"

text \<open>Feeding the decoder one arrival after the other, from a given receive buffer.\<close>

fun feed :: "byte list \<Rightarrow> byte list list \<Rightarrow> byte list \<times> ws_effect list" where
  "feed buffer [] = (buffer, [])"
| "feed buffer (c # cs) =
     (let (buffer', effs) = handleData buffer c;
          (buffer'', effs') = feed buffer' cs
      in (buffer'', effs @ effs'))"

section \<open>Properties of the frame codec\<close>

subsection \<open>Header bytes\<close>

lemma and7f: "unat ((b::byte) AND 0x7f) = unat b mod 128"
proof -
  have "unat (b AND 0x7f) = unat b AND unat (0x7f :: byte)" by (rule unsigned_and_eq)
  also have "\<dots> = unat b AND mask 7" by (simp add: mask_eq_exp_minus_1)
  also have "\<dots> = take_bit 7 (unat b)" by (simp only: take_bit_eq_mask)
  also have "\<dots> = unat b mod 128" by (simp add: take_bit_eq_mod)
  finally show ?thesis .
qed

lemma and80: "((b::byte) AND 0x80 \<noteq> 0) = (128 \<le> unat b)"
proof -
  have "(b AND 0x80 = 0) = (unat (b AND 0x80) = 0)" by (simp add: unat_eq_0)
  also have "unat (b AND 0x80) = unat b AND unat (0x80 :: byte)" by (rule unsigned_and_eq)
  also have "\<dots> = unat b AND 2 ^ 7" by simp
  also have "(\<dots> = 0) = (\<not> bit (unat b) 7)" by (rule and_exp_eq_0_iff_not_bit)
  also have "bit (unat b) 7 = odd (unat b div 128)" by (simp add: bit_iff_odd)
  also have "\<dots> = (128 \<le> unat b)"
  proof -
    have "unat b < 256" using unsigned_less [of b] by simp
    then have "unat b div 128 = 0 \<or> unat b div 128 = 1" by linarith
    moreover have "unat b div 128 = 0 \<longleftrightarrow> unat b < 128" by linarith
    ultimately show ?thesis by auto
  qed
  finally show ?thesis by simp
qed

lemma or80_and80: "((x::byte) OR 0x80) AND 0x80 = 0x80"
  by (simp add: and.commute)

lemma or80_and7f: "((x::byte) OR 0x80) AND 0x7f = x AND 0x7f"
proof -
  have "(0x80 :: byte) AND 0x7f = 0" by simp
  then show ?thesis by (simp only: bit.conj_disj_distrib2 or.right_neutral)
qed

lemma be_digits:
  "foldl (\<lambda>acc b. acc * 256 + unat b) a
     (map (\<lambda>i. of_nat (n div 256 ^ (k - Suc i)) :: byte) [0..<k]) = a * 256 ^ k + n mod 256 ^ k"
proof (induction k arbitrary: a)
  case 0
  show ?case by simp
next
  case (Suc k)
  have upt: "[0..<Suc k] = 0 # map Suc [0..<k]"
    by (simp add: upt_conv_Cons map_Suc_upt del: upt_Suc)
  have "foldl (\<lambda>acc b. acc * 256 + unat b) a
          (map (\<lambda>i. of_nat (n div 256 ^ (Suc k - Suc i)) :: byte) [0..<Suc k])
      = foldl (\<lambda>acc b. acc * 256 + unat b) (a * 256 + (n div 256 ^ k) mod 256)
          (map (\<lambda>i. of_nat (n div 256 ^ (k - Suc i)) :: byte) [0..<k])"
    by (simp only: upt list.map foldl.simps map_map o_def diff_Suc_Suc diff_zero unat_of_nat)
       simp
  also have "\<dots> = (a * 256 + (n div 256 ^ k) mod 256) * 256 ^ k + n mod 256 ^ k"
    by (rule Suc.IH)
  also have "\<dots> = a * 256 ^ Suc k + n mod 256 ^ Suc k"
  proof -
    have "n mod 256 ^ Suc k = n mod (256 ^ k * 256)" by (simp add: mult.commute)
    also have "\<dots> = 256 ^ k * (n div 256 ^ k mod 256) + n mod 256 ^ k" by (rule mod_mult2_eq)
    finally show ?thesis by (simp add: algebra_simps)
  qed
  finally show ?case .
qed

lemma length_writeBig [simp]: "length (writeBigUInt64BE n) = 8"
  by (simp add: writeBigUInt64BE_def)

lemma length_write16 [simp]: "length (writeUInt16BE n) = 2"
  by (simp add: writeUInt16BE_def)

lemma readBig_writeBig:
  assumes "n < 2 ^ 64" and "length pre = off"
  shows "readBigUInt64BE (pre @ writeBigUInt64BE n @ post) off = n"
proof -
  have w: "writeBigUInt64BE n = map (\<lambda>i. of_nat (n div 256 ^ (8 - Suc i)) :: byte) [0..<8]"
    unfolding writeBigUInt64BE_def by (rule map_cong) auto
  have "readBigUInt64BE (pre @ writeBigUInt64BE n @ post) off
      = foldl (\<lambda>acc b. acc * 256 + unat b) 0 (writeBigUInt64BE n)"
    using assms(2) by (simp add: readBigUInt64BE_def)
  also have "\<dots> = 0 * 256 ^ 8 + n mod 256 ^ 8"
    unfolding w by (rule be_digits)
  also have "\<dots> = n" using assms by simp
  finally show ?thesis .
qed

lemma read16_write16:
  assumes "n < 65536" and "length pre = off"
  shows "readUInt16BE (pre @ writeUInt16BE n @ post) off = n"
proof -
  have "n div 256 < 256" using assms by simp
  then show ?thesis using assms(2)
    by (auto simp: readUInt16BE_def writeUInt16BE_def nth_append unat_of_nat)
qed

subsection \<open>Decoding a well-formed frame\<close>

lemma unmask_mask:
  assumes "length key = 4"
  shows "map (\<lambda>i. mask_payload key pl ! i XOR key ! (i mod 4)) [0..<length pl] = pl"
  by (rule nth_equalityI) (simp_all add: mask_payload_def xor.assoc)

lemma body_unmasked:
  assumes "length pre = off" and "off + length pl < 2 ^ 53"
  shows "parseFrame_body (pre @ pl @ rest) f opc False (length pl) off
         = Some (\<lparr>fin = f, opcode = opc, payload = pl\<rparr>, rest)"
  using assms by (simp add: parseFrame_body_def to_double_def slice_def slice_from_def)

lemma body_masked:
  assumes "length pre = off" and "length key = 4" and "off + 4 + length pl < 2 ^ 53"
  shows "parseFrame_body (pre @ key @ mask_payload key pl @ rest) f opc True (length pl) off
         = Some (\<lparr>fin = f, opcode = opc, payload = pl\<rparr>, rest)"
proof -
  have l: "length (mask_payload key pl) = length pl" by (simp add: mask_payload_def)
  show ?thesis using assms
    by (simp add: parseFrame_body_def to_double_def slice_def slice_from_def l Let_def
        unmask_mask)
qed

lemma len7_small: "n < 126 \<Longrightarrow> unat ((of_nat n :: byte) AND 0x7f) = n"
  by (simp add: and7f unat_of_nat)

lemma not_masked_small: "n < 126 \<Longrightarrow> (of_nat n :: byte) AND 0x80 = 0"
  using and80 [of "of_nat n"] by (simp add: unat_of_nat)

lemma parseFrame_short:
  assumes "length pl < 126"
  shows "parseFrame ([b1, of_nat (length pl)] @ pl @ rest)
         = Some (\<lparr>fin = (b1 AND 0x80 \<noteq> 0), opcode = b1 AND 0x0f, payload = pl\<rparr>, rest)"
proof -
  have "parseFrame ([b1, of_nat (length pl)] @ pl @ rest)
      = parseFrame_body ([b1, of_nat (length pl)] @ pl @ rest) (b1 AND 0x80 \<noteq> 0) (b1 AND 0x0f)
          False (length pl) 2"
    using assms by (simp add: parseFrame_def Let_def len7_small not_masked_small)
  also have "\<dots> = Some (\<lparr>fin = (b1 AND 0x80 \<noteq> 0), opcode = b1 AND 0x0f, payload = pl\<rparr>, rest)"
    using assms by (intro body_unmasked) simp_all
  finally show ?thesis .
qed

lemma parseFrame_short_masked:
  assumes "length pl < 126" and "length key = 4"
  shows "parseFrame ([b1, of_nat (length pl) OR 0x80] @ key @ mask_payload key pl @ rest)
         = Some (\<lparr>fin = (b1 AND 0x80 \<noteq> 0), opcode = b1 AND 0x0f, payload = pl\<rparr>, rest)"
proof -
  have "parseFrame ([b1, of_nat (length pl) OR 0x80] @ key @ mask_payload key pl @ rest)
      = parseFrame_body ([b1, of_nat (length pl) OR 0x80] @ key @ mask_payload key pl @ rest)
          (b1 AND 0x80 \<noteq> 0) (b1 AND 0x0f) True (length pl) 2"
    using assms by (simp add: parseFrame_def Let_def or80_and7f or80_and80 len7_small)
  also have "\<dots> = Some (\<lparr>fin = (b1 AND 0x80 \<noteq> 0), opcode = b1 AND 0x0f, payload = pl\<rparr>, rest)"
    using assms by (intro body_masked) simp_all
  finally show ?thesis .
qed

lemma parseFrame_ext16:
  assumes "length pl < 65536"
  shows "parseFrame ([b1, 126] @ writeUInt16BE (length pl) @ pl @ rest)
         = Some (\<lparr>fin = (b1 AND 0x80 \<noteq> 0), opcode = b1 AND 0x0f, payload = pl\<rparr>, rest)"
proof -
  have r: "readUInt16BE ([b1, 126] @ writeUInt16BE (length pl) @ pl @ rest) 2 = length pl"
    using read16_write16 [OF assms, of "[b1, 126]" 2 "pl @ rest"] by simp
  have "parseFrame ([b1, 126] @ writeUInt16BE (length pl) @ pl @ rest)
      = parseFrame_body (([b1, 126] @ writeUInt16BE (length pl)) @ pl @ rest)
          (b1 AND 0x80 \<noteq> 0) (b1 AND 0x0f) False (length pl) 4"
    using r by (simp add: parseFrame_def Let_def)
  also have "\<dots> = Some (\<lparr>fin = (b1 AND 0x80 \<noteq> 0), opcode = b1 AND 0x0f, payload = pl\<rparr>, rest)"
    using assms by (intro body_unmasked) simp_all
  finally show ?thesis .
qed

lemma parseFrame_ext16_masked:
  assumes "length pl < 65536" and "length key = 4"
  shows "parseFrame ([b1, 126 OR 0x80] @ writeUInt16BE (length pl) @ key @ mask_payload key pl @ rest)
         = Some (\<lparr>fin = (b1 AND 0x80 \<noteq> 0), opcode = b1 AND 0x0f, payload = pl\<rparr>, rest)"
proof -
  have r: "readUInt16BE ([b1, 126 OR 0x80] @ writeUInt16BE (length pl) @ key @ mask_payload key pl @ rest) 2
           = length pl"
    using read16_write16 [OF assms(1), of "[b1, 126 OR 0x80]" 2 "key @ mask_payload key pl @ rest"]
    by simp
  have "parseFrame ([b1, 126 OR 0x80] @ writeUInt16BE (length pl) @ key @ mask_payload key pl @ rest)
      = parseFrame_body (([b1, 126 OR 0x80] @ writeUInt16BE (length pl)) @ key @ mask_payload key pl @ rest)
          (b1 AND 0x80 \<noteq> 0) (b1 AND 0x0f) True (length pl) 4"
    using r by (simp add: parseFrame_def Let_def)
  also have "\<dots> = Some (\<lparr>fin = (b1 AND 0x80 \<noteq> 0), opcode = b1 AND 0x0f, payload = pl\<rparr>, rest)"
    using assms by (intro body_masked) simp_all
  finally show ?thesis .
qed

lemma parseFrame_ext64:
  assumes "length pl + 10 < 2 ^ 53"
  shows "parseFrame ([b1, 127] @ writeBigUInt64BE (length pl) @ pl @ rest)
         = Some (\<lparr>fin = (b1 AND 0x80 \<noteq> 0), opcode = b1 AND 0x0f, payload = pl\<rparr>, rest)"
proof -
  have "length pl < 2 ^ 64" using assms by simp
  from readBig_writeBig [OF this, of "[b1, 127]" 2 "pl @ rest"]
  have r: "readBigUInt64BE ([b1, 127] @ writeBigUInt64BE (length pl) @ pl @ rest) 2 = length pl"
    by simp
  have d: "to_double (length pl) = length pl" using assms by (simp add: to_double_def)
  have "parseFrame ([b1, 127] @ writeBigUInt64BE (length pl) @ pl @ rest)
      = parseFrame_body (([b1, 127] @ writeBigUInt64BE (length pl)) @ pl @ rest)
          (b1 AND 0x80 \<noteq> 0) (b1 AND 0x0f) False (length pl) 10"
    using r d by (simp add: parseFrame_def Let_def)
  also have "\<dots> = Some (\<lparr>fin = (b1 AND 0x80 \<noteq> 0), opcode = b1 AND 0x0f, payload = pl\<rparr>, rest)"
    using assms by (intro body_unmasked) simp_all
  finally show ?thesis .
qed

lemma parseFrame_ext64_masked:
  assumes "length pl + 14 < 2 ^ 53" and "length key = 4"
  shows "parseFrame ([b1, 127 OR 0x80] @ writeBigUInt64BE (length pl) @ key @ mask_payload key pl @ rest)
         = Some (\<lparr>fin = (b1 AND 0x80 \<noteq> 0), opcode = b1 AND 0x0f, payload = pl\<rparr>, rest)"
proof -
  have "length pl < 2 ^ 64" using assms by simp
  from readBig_writeBig [OF this, of "[b1, 127 OR 0x80]" 2 "key @ mask_payload key pl @ rest"]
  have r: "readBigUInt64BE ([b1, 127 OR 0x80] @ writeBigUInt64BE (length pl) @ key @ mask_payload key pl @ rest) 2
           = length pl"
    by simp
  have d: "to_double (length pl) = length pl" using assms by (simp add: to_double_def)
  have "parseFrame ([b1, 127 OR 0x80] @ writeBigUInt64BE (length pl) @ key @ mask_payload key pl @ rest)
      = parseFrame_body (([b1, 127 OR 0x80] @ writeBigUInt64BE (length pl)) @ key @ mask_payload key pl @ rest)
          (b1 AND 0x80 \<noteq> 0) (b1 AND 0x0f) True (length pl) 10"
    using r d by (simp add: parseFrame_def Let_def)
  also have "\<dots> = Some (\<lparr>fin = (b1 AND 0x80 \<noteq> 0), opcode = b1 AND 0x0f, payload = pl\<rparr>, rest)"
    using assms by (intro body_masked) simp_all
  finally show ?thesis .
qed

subsection \<open>Encoding, then decoding\<close>

lemma first_byte_text: "((0x81::byte) AND 0x80 \<noteq> 0) = True" "(0x81::byte) AND 0x0f = 1"
  by simp_all

lemma parse_send:
  assumes "length pl + 10 < 2 ^ 53"
  shows "parseFrame (send_frame pl @ rest) = Some (\<lparr>fin = True, opcode = 0x01, payload = pl\<rparr>, rest)"
proof -
  consider "length pl < 126" | "126 \<le> length pl" "length pl < 65536" | "65536 \<le> length pl"
    by linarith
  then show ?thesis
  proof cases
    case 1
    then show ?thesis using parseFrame_short [of pl "0x81" rest]
      by (simp add: send_frame_def)
  next
    case 2
    then show ?thesis using parseFrame_ext16 [of pl "0x81" rest]
      by (simp add: send_frame_def)
  next
    case 3
    then show ?thesis using parseFrame_ext64 [OF assms, of "0x81" rest]
      by (simp add: send_frame_def)
  qed
qed

lemma send_frame_spec: "send_frame pl = spec_encode 0x01 pl"
  by (simp add: send_frame_def spec_encode_def spec_length_field_def)

lemma as_client_frame_cases:
  "as_client_frame key pl =
     (if length pl < 126 then [0x81, of_nat (length pl) OR 0x80] @ key @ mask_payload key pl
      else if length pl < 65536 then
        [0x81, 126 OR 0x80] @ writeUInt16BE (length pl) @ key @ mask_payload key pl
      else [0x81, 127 OR 0x80] @ writeBigUInt64BE (length pl) @ key @ mask_payload key pl)"
  by (simp add: as_client_frame_def send_frame_def Let_def slice_def slice_from_def)

lemma parse_client:
  assumes "length pl + 14 < 2 ^ 53" and "length key = 4"
  shows "parseFrame (as_client_frame key pl @ rest)
         = Some (\<lparr>fin = True, opcode = 0x01, payload = pl\<rparr>, rest)"
proof -
  consider "length pl < 126" | "126 \<le> length pl" "length pl < 65536" | "65536 \<le> length pl"
    by linarith
  then show ?thesis
  proof cases
    case 1
    then show ?thesis using parseFrame_short_masked [OF _ assms(2), of pl "0x81" rest]
      by (simp add: as_client_frame_cases)
  next
    case 2
    then show ?thesis using parseFrame_ext16_masked [OF _ assms(2), of pl "0x81" rest]
      by (simp add: as_client_frame_cases)
  next
    case 3
    then show ?thesis using parseFrame_ext64_masked [OF assms, of "0x81" rest]
      by (simp add: as_client_frame_cases)
  qed
qed

text \<open>
  Claim C2. For every payload of length 0, 1, 125, 126, 65535 or 65536 and every four-byte
  mask key: \<open>send\<close> builds the TEXT frame the encode algorithm describes (byte 1 is
  \<open>0x80 | 0x1\<close>, one length byte below 126, 126 and a big-endian 16-bit length below
  65536, 127 and a big-endian 64-bit length otherwise, then the raw payload), and decoding
  that frame -- as it is, and as the masked frame a client would send with that key --
  gives back exactly the payload, with FIN set, opcode TEXT and nothing left in the buffer.
\<close>

theorem frame_round_trip:
  assumes "length pl \<in> {0, 1, 125, 126, 65535, 65536}" and "length key = 4"
  shows "send_frame pl = spec_encode 0x01 pl
       \<and> parseFrame (send_frame pl) = Some (\<lparr>fin = True, opcode = 0x01, payload = pl\<rparr>, [])
       \<and> parseFrame (as_client_frame key pl) = Some (\<lparr>fin = True, opcode = 0x01, payload = pl\<rparr>, [])"
proof -
  from assms(1) have "length pl \<le> 65536" by auto
  then have b: "length pl + 14 < 2 ^ 53" "length pl + 10 < 2 ^ 53" by simp_all
  show ?thesis
    using parse_send [OF b(2), of "[]"] parse_client [OF b(1) assms(2), of "[]"]
    by (simp add: send_frame_spec)
qed

theorem frame_round_trip_witness:
  "length [0x68 :: byte] \<in> {0, 1, 125, 126, 65535, 65536} \<and> length [1, 2, 3, 4 :: byte] = 4
   \<and> as_client_frame [1, 2, 3, 4] [0x68] = [0x81, 0x81, 1, 2, 3, 4, 0x69]
   \<and> parseFrame [0x81, 0x81, 1, 2, 3, 4, 0x69] = Some (\<lparr>fin = True, opcode = 0x01, payload = [0x68]\<rparr>, [])"
  using frame_round_trip [of "[0x68]" "[1, 2, 3, 4]"]
  by (simp add: as_client_frame_cases mask_payload_def)

subsection \<open>Frames that arrive in pieces\<close>

lemma body_prefix_None:
  assumes "parseFrame_body f a b m L off = Some (fr, [])" and "n < length f"
  shows "parseFrame_body (take n f) a' b' m L off = None"
  using assms
  by (auto simp: parseFrame_body_def Let_def slice_from_def split: if_splits)

lemma read16_take: "4 \<le> n \<Longrightarrow> readUInt16BE (take n f) 2 = readUInt16BE f 2"
  by (simp add: readUInt16BE_def)

lemma readBig_take: "10 \<le> n \<Longrightarrow> readBigUInt64BE (take n f) 2 = readBigUInt64BE f 2"
  by (simp add: readBigUInt64BE_def drop_take min_def)

lemma parseFrame_prefix_None:
  assumes "parseFrame f = Some (fr, [])" and "n < length f"
  shows "parseFrame (take n f) = None"
proof (cases "n < 2")
  case True
  with assms(2) show ?thesis by (simp add: parseFrame_def)
next
  case False
  then have n2: "2 \<le> n" by simp
  define g where "g = take n f"
  define L7 where "L7 = unat (f ! 1 AND 0x7f)"
  define a where "a = (f ! 0 AND 0x80 \<noteq> 0)"
  define b where "b = f ! 0 AND 0x0f"
  define m where "m = (f ! 1 AND 0x80 \<noteq> 0)"
  have len: "length g = n" using assms(2) by (simp add: g_def)
  have nth: "g ! 0 = f ! 0" "g ! Suc 0 = f ! Suc 0" using n2 by (simp_all add: g_def)
  have f2: "\<not> length f < 2" using assms(2) n2 by simp
  have pf: "parseFrame f =
     (if L7 = 126 then (if length f < 4 then None else parseFrame_body f a b m (readUInt16BE f 2) 4)
      else if L7 = 127 then
        (if length f < 10 then None else parseFrame_body f a b m (to_double (readBigUInt64BE f 2)) 10)
      else parseFrame_body f a b m L7 2)"
    using f2 by (simp add: parseFrame_def Let_def L7_def a_def b_def m_def)
  have pg: "parseFrame g =
     (if L7 = 126 then (if n < 4 then None else parseFrame_body g a b m (readUInt16BE g 2) 4)
      else if L7 = 127 then
        (if n < 10 then None else parseFrame_body g a b m (to_double (readBigUInt64BE g 2)) 10)
      else parseFrame_body g a b m L7 2)"
    using n2 by (simp add: parseFrame_def Let_def L7_def a_def b_def m_def len nth)
  consider "L7 = 126" | "L7 = 127" | "L7 \<noteq> 126" "L7 \<noteq> 127" by blast
  then have "parseFrame g = None"
  proof cases
    case 1
    with pf assms(1) have body: "parseFrame_body f a b m (readUInt16BE f 2) 4 = Some (fr, [])"
      by (simp split: if_splits)
    show ?thesis
    proof (cases "n < 4")
      case True
      with 1 pg show ?thesis by simp
    next
      case False
      then have "readUInt16BE g 2 = readUInt16BE f 2" by (simp add: g_def read16_take)
      with 1 pg False body_prefix_None [OF body assms(2), of a b] show ?thesis
        by (simp add: g_def)
    qed
  next
    case 2
    with pf assms(1)
    have body: "parseFrame_body f a b m (to_double (readBigUInt64BE f 2)) 10 = Some (fr, [])"
      by (simp split: if_splits)
    show ?thesis
    proof (cases "n < 10")
      case True
      with 2 pg show ?thesis by simp
    next
      case False
      then have "readBigUInt64BE g 2 = readBigUInt64BE f 2" by (simp add: g_def readBig_take)
      with 2 pg False body_prefix_None [OF body assms(2), of a b] show ?thesis
        by (simp add: g_def)
    qed
  next
    case 3
    with pf assms(1) have body: "parseFrame_body f a b m L7 2 = Some (fr, [])" by simp
    with 3 pg body_prefix_None [OF body assms(2), of a b] show ?thesis
      by (simp add: g_def)
  qed
  then show ?thesis by (simp add: g_def)
qed

lemma handle_frames_incomplete:
  assumes "parseFrame f = Some (fr, [])" and "n < length f"
  shows "handle_frames (take n f) = (take n f, [])"
  using parseFrame_prefix_None [OF assms]
  by (subst handle_frames.simps) simp

lemma handle_frames_text:
  assumes "parseFrame buffer = Some (fr, rest)" and "opcode fr = 0x01"
  shows "handle_frames buffer
         = (fst (handle_frames rest), Emit_message (toString (payload fr)) # snd (handle_frames rest))"
proof -
  from assms(1) have "2 \<le> length buffer" by (auto simp: parseFrame_def split: if_splits)
  then show ?thesis using assms
    by (subst handle_frames.simps) (simp add: case_prod_beta)
qed

lemma handle_frames_close:
  assumes "parseFrame buffer = Some (fr, rest)" and "opcode fr = 0x08"
  shows "handle_frames buffer = (rest, close)"
proof -
  from assms(1) have "2 \<le> length buffer" by (auto simp: parseFrame_def split: if_splits)
  then show ?thesis using assms
    by (subst handle_frames.simps) simp
qed

lemma handle_frames_ping:
  assumes "parseFrame buffer = Some (fr, rest)" and "opcode fr = 0x09"
  shows "handle_frames buffer
         = (fst (handle_frames rest), Socket_write (sendPong (payload fr)) # snd (handle_frames rest))"
proof -
  from assms(1) have "2 \<le> length buffer" by (auto simp: parseFrame_def split: if_splits)
  then show ?thesis using assms
    by (subst handle_frames.simps) (simp add: case_prod_beta)
qed

lemma handle_frames_other:
  assumes "parseFrame buffer = Some (fr, rest)"
    and "opcode fr \<noteq> 0x01" and "opcode fr \<noteq> 0x08" and "opcode fr \<noteq> 0x09"
  shows "handle_frames buffer = handle_frames rest"
proof -
  from assms(1) have "2 \<le> length buffer" by (auto simp: parseFrame_def split: if_splits)
  then show ?thesis using assms
    by (subst handle_frames.simps) simp
qed

lemma handle_frames_Nil: "handle_frames [] = ([], [])"
  by (subst handle_frames.simps) simp

lemma feed_completes:
  assumes "parseFrame f = Some (fr, [])"
  shows "chunks \<noteq> [] \<Longrightarrow> \<forall>c \<in> set chunks. c \<noteq> [] \<Longrightarrow> buf @ concat chunks = f
         \<Longrightarrow> feed buf chunks = handle_frames f"
proof (induction chunks arbitrary: buf)
  case Nil
  then show ?case by simp
next
  case (Cons c cs)
  show ?case
  proof (cases "cs = []")
    case True
    with Cons.prems show ?thesis by (simp add: handleData_def case_prod_beta)
  next
    case False
    then obtain c' cs' where cs: "cs = c' # cs'" by (cases cs) auto
    with Cons.prems have "c' \<noteq> []" by simp
    with Cons.prems cs have short: "length (buf @ c) < length f" by auto
    from Cons.prems have "buf @ c = take (length (buf @ c)) f" by auto
    with handle_frames_incomplete [OF assms short]
    have h: "handleData buf c = (buf @ c, [])" by (simp add: handleData_def)
    have "feed (buf @ c) cs = handle_frames f"
      using Cons.prems False by (intro Cons.IH) auto
    with h show ?thesis by (simp add: case_prod_beta)
  qed
qed

text \<open>
  Claim C3. Let \<open>f\<close> be one complete frame: the decoder reads the frame \<open>fr\<close> from it and
  nothing is left. Fed in one arrival, \<open>f\<close> leaves the buffer empty and the frame \<open>fr\<close> is
  dispatched once: its payload, decoded, is handed over as a message when it is a TEXT
  frame, the connection is closed when it is a CLOSE frame, its payload is echoed when it
  is a PING, and nothing is done otherwise. However \<open>f\<close> is cut into non-empty chunks,
  feeding the chunks one arrival at a time gives exactly that: the same buffer and the
  same effects, from the same decoded frame. And while the receive buffer holds only the
  first \<open>n < length f\<close> bytes of \<open>f\<close>, in whatever pieces they arrived, \<open>parseFrame\<close>
  returns nothing and \<open>handleData\<close> leaves exactly those bytes in the buffer and does
  nothing.
\<close>

theorem chunked_arrival:
  assumes "parseFrame f = Some (fr, [])" and "concat chunks = f" and "\<forall>c \<in> set chunks. c \<noteq> []"
  shows "feed [] chunks = handleData [] f
       \<and> handleData [] f
           = ([], if opcode fr = 0x01 then [Emit_message (toString (payload fr))]
                  else if opcode fr = 0x08 then close
                  else if opcode fr = 0x09 then [Socket_write (sendPong (payload fr))]
                  else [])
       \<and> feed [] chunks
           = ([], if opcode fr = 0x01 then [Emit_message (toString (payload fr))]
                  else if opcode fr = 0x08 then close
                  else if opcode fr = 0x09 then [Socket_write (sendPong (payload fr))]
                  else [])
       \<and> (\<forall>n < length f. parseFrame (take n f) = None
            \<and> (\<forall>b d. b @ d = take n f \<longrightarrow> handleData b d = (take n f, [])))"
proof -
  from assms(1) have "f \<noteq> []" by (auto simp: parseFrame_def)
  with assms(2) have "chunks \<noteq> []" by auto
  from feed_completes [OF assms(1) this assms(3), of "[]"] assms(2)
  have same: "feed [] chunks = handleData [] f" by (simp add: handleData_def)
  have whole: "handleData [] f
           = ([], if opcode fr = 0x01 then [Emit_message (toString (payload fr))]
                  else if opcode fr = 0x08 then close
                  else if opcode fr = 0x09 then [Socket_write (sendPong (payload fr))]
                  else [])"
  proof -
    consider "opcode fr = 0x01" | "opcode fr = 0x08" | "opcode fr = 0x09"
      | "opcode fr \<noteq> 0x01" "opcode fr \<noteq> 0x08" "opcode fr \<noteq> 0x09" by blast
    then show ?thesis
    proof cases
      case 1
      with handle_frames_text [OF assms(1)] show ?thesis
        by (simp add: handleData_def handle_frames_Nil)
    next
      case 2
      with handle_frames_close [OF assms(1)] show ?thesis
        by (simp add: handleData_def)
    next
      case 3
      with handle_frames_ping [OF assms(1)] show ?thesis
        by (simp add: handleData_def handle_frames_Nil)
    next
      case 4
      with handle_frames_other [OF assms(1)] show ?thesis
        by (simp add: handleData_def handle_frames_Nil)
    qed
  qed
  have part: "\<forall>n < length f. parseFrame (take n f) = None
            \<and> (\<forall>b d. b @ d = take n f \<longrightarrow> handleData b d = (take n f, []))"
    using parseFrame_prefix_None [OF assms(1)] handle_frames_incomplete [OF assms(1)]
    by (auto simp: handleData_def)
  from same whole part show ?thesis by (simp only: simp_thms)
qed

theorem chunked_arrival_witness:
  "parseFrame [0x81, 0x82, 1, 2, 3, 4, 0x69, 0x6B]
     = Some (\<lparr>fin = True, opcode = 0x01, payload = [0x68, 0x69]\<rparr>, [])
   \<and> concat [[0x81, 0x82, 1], [2, 3, 4, 0x69], [0x6B]] = [0x81, 0x82, 1, 2, 3, 4, 0x69, 0x6B :: byte]
   \<and> handleData [] [0x81, 0x82, 1, 2, 3, 4, 0x69, 0x6B] = ([], [Emit_message [0x68, 0x69]])
   \<and> feed [] [[0x81, 0x82, 1], [2, 3, 4, 0x69], [0x6B]] = ([], [Emit_message [0x68, 0x69]])
   \<and> handleData [0x81, 0x82, 1] [2, 3, 4, 0x69] = ([0x81, 0x82, 1, 2, 3, 4, 0x69], [])"
proof -
  have pf: "parseFrame [0x81, 0x82, 1, 2, 3, 4, 0x69, 0x6B]
     = Some (\<lparr>fin = True, opcode = 0x01, payload = [0x68, 0x69]\<rparr>, [])"
    using parse_client [of "[0x68, 0x69]" "[1, 2, 3, 4]" "[]"]
    by (simp add: as_client_frame_cases mask_payload_def)
  have c: "concat [[0x81, 0x82, 1], [2, 3, 4, 0x69], [0x6B]] = [0x81, 0x82, 1, 2, 3, 4, 0x69, 0x6B :: byte]"
    by simp
  have ne: "\<forall>c \<in> set [[0x81, 0x82, 1], [2, 3, 4, 0x69], [0x6B :: byte]]. c \<noteq> []" by simp
  from chunked_arrival [OF pf c ne]
  have "handleData [] [0x81, 0x82, 1, 2, 3, 4, 0x69, 0x6B] = ([], [Emit_message [0x68, 0x69]])"
    and "feed [] [[0x81, 0x82, 1], [2, 3, 4, 0x69], [0x6B]] = ([], [Emit_message [0x68, 0x69]])"
    and "\<forall>n<8. \<forall>b d. b @ d = take n [0x81, 0x82, 1, 2, 3, 4, 0x69, 0x6B :: byte]
           \<longrightarrow> handleData b d = (take n [0x81, 0x82, 1, 2, 3, 4, 0x69, 0x6B], [])"
    by (simp_all add: toString_def)
  from this(1) this(2) this(3) [rule_format, of 7 "[0x81, 0x82, 1]" "[2, 3, 4, 0x69]"] pf c
  show ?thesis by simp
qed

subsection \<open>Dispatch on the opcode\<close>

lemma flip_fin_low: "((b::byte) XOR 0x80) AND 0x0f = b AND 0x0f"
proof -
  have "(0x80 :: byte) AND 0x0f = 0" by simp
  then show ?thesis by (simp only: bit.conj_xor_distrib2 xor.right_neutral)
qed

lemma fin_bit_iff: "((c::byte) AND 0x80 \<noteq> 0) = bit c 7"
proof -
  have "(0x80 :: byte) = 2 ^ 7" by simp
  then show ?thesis by (simp only: and_exp_eq_0_iff_not_bit) simp
qed

lemma flip_fin_high: "(((b::byte) XOR 0x80) AND 0x80 \<noteq> 0) = (\<not> (b AND 0x80 \<noteq> 0))"
proof -
  have "bit (0x80 :: byte) 7" by simp
  then show ?thesis by (simp only: fin_bit_iff bit_xor_iff) simp
qed

lemma body_first_byte:
  assumes "0 < off"
  shows "parseFrame_body (b' # bs) f' opc m L off
   = map_option (\<lambda>(fr, rest). (fr\<lparr>fin := f'\<rparr>, rest)) (parseFrame_body (b # bs) f opc m L off)"
proof -
  have "0 < to_double (off + (if m then 4 else 0) + L)"
    using assms by (intro to_double_pos) simp
  with assms show ?thesis
    by (simp add: parseFrame_body_def Let_def slice_def slice_from_def drop_Cons')
qed

lemma parseFrame_flip_fin:
  "parseFrame ((b XOR 0x80) # bs)
   = map_option (\<lambda>(fr, rest). (fr\<lparr>fin := \<not> fin fr\<rparr>, rest)) (parseFrame (b # bs))"
proof -
  have fin_body: "\<And>f opc m L off. map_option (\<lambda>(fr, rest). (fr\<lparr>fin := \<not> fin fr\<rparr>, rest))
            (parseFrame_body (b # bs) f opc m L off)
        = map_option (\<lambda>(fr, rest). (fr\<lparr>fin := \<not> f\<rparr>, rest)) (parseFrame_body (b # bs) f opc m L off)"
    by (simp add: parseFrame_body_def Let_def)
  have r16: "readUInt16BE ((b XOR 0x80) # bs) 2 = readUInt16BE (b # bs) 2"
    by (simp add: readUInt16BE_def)
  have r64: "readBigUInt64BE ((b XOR 0x80) # bs) 2 = readBigUInt64BE (b # bs) 2"
    by (simp add: readBigUInt64BE_def)
  show ?thesis
    by (simp add: parseFrame_def Let_def flip_fin_low flip_fin_high r16 r64 fin_body
          body_first_byte [of _ "b XOR 0x80" bs _ _ _ _ b "b AND 0x80 \<noteq> 0"]
        del: One_nat_def)
qed

lemma handle_frames_flip_fin:
  "snd (handle_frames ((b XOR 0x80) # bs)) = snd (handle_frames (b # bs))
   \<and> (parseFrame (b # bs) \<noteq> None \<longrightarrow> handle_frames ((b XOR 0x80) # bs) = handle_frames (b # bs))"
proof (cases "parseFrame (b # bs)")
  case None
  then have "parseFrame ((b XOR 0x80) # bs) = None" by (simp add: parseFrame_flip_fin)
  with None show ?thesis
    by (simp add: handle_frames.simps [of "b # bs"] handle_frames.simps [of "(b XOR 0x80) # bs"])
next
  case (Some a)
  then obtain fr rest where s: "parseFrame (b # bs) = Some (fr, rest)" by (cases a) auto
  then have s': "parseFrame ((b XOR 0x80) # bs) = Some (fr\<lparr>fin := \<not> fin fr\<rparr>, rest)"
    by (simp add: parseFrame_flip_fin)
  consider "opcode fr = 0x01" | "opcode fr = 0x08" | "opcode fr = 0x09"
    | "opcode fr \<noteq> 0x01" "opcode fr \<noteq> 0x08" "opcode fr \<noteq> 0x09" by blast
  then have "handle_frames ((b XOR 0x80) # bs) = handle_frames (b # bs)"
  proof cases
    case 1
    then show ?thesis using handle_frames_text [OF s] handle_frames_text [OF s'] by simp
  next
    case 2
    then show ?thesis using handle_frames_close [OF s] handle_frames_close [OF s'] by simp
  next
    case 3
    then show ?thesis using handle_frames_ping [OF s] handle_frames_ping [OF s'] by simp
  next
    case 4
    then show ?thesis using handle_frames_other [OF s] handle_frames_other [OF s'] by simp
  qed
  then show ?thesis by simp
qed

text \<open>
  Claim C10. The decoder reads the FIN bit into the frame and never looks at it. Whenever
  the buffer starts with a complete frame: if its opcode is TEXT, the payload is handed to
  the \<open>message\<close> listeners as a message of its own, whatever FIN says, and decoding
  goes on behind the frame; if its opcode is none of TEXT (0x1), CLOSE (0x8) and PING (0x9)
  -- CONTINUATION (0x0) and BINARY (0x2) among them -- the frame is taken out of the buffer
  and nothing at all is done with it: the decoder carries on exactly as if the buffer had
  started behind it. Flipping the FIN bit of the frame changes neither the effects nor the
  buffer left behind.
\<close>

theorem fin_never_consulted:
  assumes "parseFrame buffer = Some (fr, rest)"
  shows "(opcode fr = 0x01 \<longrightarrow>
            handle_frames buffer
            = (fst (handle_frames rest), Emit_message (toString (payload fr)) # snd (handle_frames rest)))
       \<and> (opcode fr \<notin> {0x01, 0x08, 0x09} \<longrightarrow> handle_frames buffer = handle_frames rest)
       \<and> handle_frames ((hd buffer XOR 0x80) # tl buffer) = handle_frames buffer"
proof -
  from assms have "buffer \<noteq> []" by (auto simp: parseFrame_def)
  then have b: "buffer = hd buffer # tl buffer" by simp
  from assms b have "parseFrame (hd buffer # tl buffer) \<noteq> None" by simp
  with handle_frames_flip_fin [of "hd buffer" "tl buffer"] b
  have "handle_frames ((hd buffer XOR 0x80) # tl buffer) = handle_frames buffer" by simp
  then show ?thesis
    using handle_frames_text [OF assms] handle_frames_other [OF assms] by simp
qed

theorem fin_never_consulted_witness:
  "parseFrame [0x01, 0x02, 0x68, 0x69, 0x80, 0x01, 0x21]
     = Some (\<lparr>fin = False, opcode = 0x01, payload = [0x68, 0x69]\<rparr>, [0x80, 0x01, 0x21])
   \<and> parseFrame [0x80, 0x01, 0x21] = Some (\<lparr>fin = True, opcode = 0x00, payload = [0x21]\<rparr>, [])
   \<and> handle_frames [0x01, 0x02, 0x68, 0x69, 0x80, 0x01, 0x21] = ([], [Emit_message [0x68, 0x69]])
   \<and> handle_frames [0x81, 0x02, 0x68, 0x69, 0x80, 0x01, 0x21] = ([], [Emit_message [0x68, 0x69]])"
proof -
  have p1: "parseFrame [0x01, 0x02, 0x68, 0x69, 0x80, 0x01, 0x21]
     = Some (\<lparr>fin = False, opcode = 0x01, payload = [0x68, 0x69]\<rparr>, [0x80, 0x01, 0x21])"
    using parseFrame_short [of "[0x68, 0x69]" "0x01" "[0x80, 0x01, 0x21]"] by simp
  have p2: "parseFrame [0x80, 0x01, 0x21] = Some (\<lparr>fin = True, opcode = 0x00, payload = [0x21]\<rparr>, [])"
    using parseFrame_short [of "[0x21]" "0x80" "[]"] by simp
  from fin_never_consulted [OF p2] have "handle_frames [0x80, 0x01, 0x21] = ([], [])"
    by (simp add: handle_frames_Nil)
  with fin_never_consulted [OF p1] p1 p2 show ?thesis
    by (simp add: toString_def)
qed

subsection \<open>PING and PONG\<close>

lemma sendPong_spec:
  "length pl < 126 \<Longrightarrow> sendPong pl = spec_encode 0x0A pl"
  by (simp add: sendPong_def spec_encode_def spec_length_field_def)

text \<open>
  Claim C8, as amended. For every received PING frame whose payload is shorter than 126
  bytes (the most a control frame may carry), the codec writes exactly one frame for it,
  the PONG the encode algorithm gives for that payload: byte 1 is \<open>0x8A\<close> (FIN set, opcode
  \<open>0xA\<close>), one length byte, then the payload unchanged; decoding it gives FIN set, opcode
  \<open>0xA\<close> and that payload.
\<close>

theorem pong_echoes_ping:
  assumes "parseFrame buffer = Some (fr, rest)" and "opcode fr = 0x09"
    and "length (payload fr) < 126"
  shows "handle_frames buffer
         = (fst (handle_frames rest),
            Socket_write (spec_encode 0x0A (payload fr)) # snd (handle_frames rest))
       \<and> spec_encode 0x0A (payload fr) = [0x8A, of_nat (length (payload fr))] @ payload fr
       \<and> parseFrame (spec_encode 0x0A (payload fr))
           = Some (\<lparr>fin = True, opcode = 0x0A, payload = payload fr\<rparr>, [])"
proof -
  have e: "spec_encode 0x0A (payload fr) = [0x8A, of_nat (length (payload fr))] @ payload fr"
    using assms(3) by (simp add: spec_encode_def spec_length_field_def)
  have "parseFrame ([0x8A, of_nat (length (payload fr))] @ payload fr @ [])
        = Some (\<lparr>fin = True, opcode = 0x0A, payload = payload fr\<rparr>, [])"
    using parseFrame_short [OF assms(3), of "0x8A" "[]"] by simp
  with e handle_frames_ping [OF assms(1,2)] sendPong_spec [OF assms(3)] show ?thesis by simp
qed

theorem pong_echoes_ping_witness:
  "parseFrame [0x89, 0x02, 0x68, 0x69] = Some (\<lparr>fin = True, opcode = 0x09, payload = [0x68, 0x69]\<rparr>, [])
   \<and> length [0x68, 0x69 :: byte] < 126
   \<and> handle_frames [0x89, 0x02, 0x68, 0x69] = ([], [Socket_write [0x8A, 0x02, 0x68, 0x69]])"
proof -
  have p: "parseFrame [0x89, 0x02, 0x68, 0x69]
           = Some (\<lparr>fin = True, opcode = 0x09, payload = [0x68, 0x69]\<rparr>, [])"
    using parseFrame_short [of "[0x68, 0x69]" "0x89" "[]"] by simp
  from pong_echoes_ping [OF p] p show ?thesis by (simp add: handle_frames_Nil)
qed

text \<open>
  \<open>sendPong\<close> has no extended length: a PING carrying 126 bytes is answered by a frame
  whose second byte is 126 with the payload right behind it, which is not the encoding of
  that payload.
\<close>

theorem pong_long_payload_counterexample:
  "snd (handleData [] ([0x89, 0x7E, 0x00, 0x7E] @ replicate 126 0x61))
     = [Socket_write ([0x8A, 0x7E] @ replicate 126 0x61)]
   \<and> [0x8A, 0x7E] @ replicate 126 0x61 \<noteq> spec_encode 0x0A (replicate 126 0x61)"
proof -
  have "parseFrame ([0x89, 126] @ writeUInt16BE (length (replicate 126 (0x61::byte)))
           @ replicate 126 0x61 @ [])
        = Some (\<lparr>fin = (0x89 AND 0x80 \<noteq> (0::byte)), opcode = 0x89 AND 0x0f,
                  payload = replicate 126 0x61\<rparr>, [])"
    by (rule parseFrame_ext16) simp
  then have p: "parseFrame ([0x89, 0x7E, 0x00, 0x7E] @ replicate 126 0x61)
        = Some (\<lparr>fin = True, opcode = 0x09, payload = replicate 126 0x61\<rparr>, [])"
    by (simp add: writeUInt16BE_def)
  have "snd (handleData [] ([0x89, 0x7E, 0x00, 0x7E] @ replicate 126 0x61))
     = [Socket_write ([0x8A, 0x7E] @ replicate 126 0x61)]"
    using handle_frames_ping [OF p] by (simp add: handleData_def handle_frames_Nil sendPong_def)
  moreover have "length ([0x8A, 0x7E] @ replicate 126 (0x61::byte))
                 \<noteq> length (spec_encode 0x0A (replicate 126 (0x61::byte)))"
    by (simp add: spec_encode_def spec_length_field_def)
  then have "[0x8A, 0x7E] @ replicate 126 0x61 \<noteq> spec_encode 0x0A (replicate 126 0x61)"
    by metis
  ultimately show ?thesis by simp
qed

section \<open>The handshake: \<open>server.on('upgrade')\<close> of bin/ghostty-web.js\<close>

subsection \<open>SHA-1 and base64\<close>

text \<open>
  \<open>crypto.createHash('sha1').update(s).digest('base64')\<close> is Node's: SHA-1 (FIPS 180-4)
  of the UTF-8 bytes of \<open>s\<close>, then base64 (RFC 4648) with padding. A 32-bit word is the
  natural number below \<open>2^32\<close> it denotes, with the wrap-around written out.
\<close>

type_synonym u32 = nat

definition rotl32 :: "nat \<Rightarrow> u32 \<Rightarrow> u32" where
  "rotl32 n w = (w * 2 ^ n) mod 2 ^ 32 + w div 2 ^ (32 - n)"

definition sha1_pad :: "byte list \<Rightarrow> byte list" where
  "sha1_pad msg =
     msg @ [0x80] @ replicate ((119 - length msg mod 64) mod 64) 0
         @ writeBigUInt64BE (8 * length msg)"

fun words32 :: "byte list \<Rightarrow> u32 list" where
  "words32 (a # b # c # d # rest) =
     (unat a * 16777216 + unat b * 65536 + unat c * 256 + unat d) # words32 rest"
| "words32 _ = []"

text \<open>
  The message schedule, built newest word first: with \<open>r\<close> holding \<open>W(t-1), W(t-2), \<dots>\<close>
  the words \<open>W(t-3)\<close>, \<open>W(t-8)\<close>, \<open>W(t-14)\<close>, \<open>W(t-16)\<close> are its elements 2, 7, 13, 15.
\<close>

definition sha1_schedule :: "u32 list \<Rightarrow> u32 list" where
  "sha1_schedule w16 =
     rev (foldl (\<lambda>r t. rotl32 1 (r ! 2 XOR r ! 7 XOR r ! 13 XOR r ! 15) # r) (rev w16) [16..<80])"

definition sha1_f :: "nat \<Rightarrow> u32 \<Rightarrow> u32 \<Rightarrow> u32 \<Rightarrow> u32" where
  "sha1_f t b c d =
     (if t < 20 then (b AND c) OR ((b XOR 0xFFFFFFFF) AND d)
      else if t < 40 then b XOR c XOR d
      else if t < 60 then (b AND c) OR (b AND d) OR (c AND d)
      else b XOR c XOR d)"

definition sha1_k :: "nat \<Rightarrow> u32" where
  "sha1_k t =
     (if t < 20 then 0x5A827999 else if t < 40 then 0x6ED9EBA1
      else if t < 60 then 0x8F1BBCDC else 0xCA62C1D6)"

type_synonym sha1_state = "u32 \<times> u32 \<times> u32 \<times> u32 \<times> u32"

fun sha1_round :: "u32 list \<Rightarrow> sha1_state \<Rightarrow> nat \<Rightarrow> sha1_state" where
  "sha1_round w (a, b, c, d, e) t =
     ((rotl32 5 a + sha1_f t b c d + e + sha1_k t + w ! t) mod 2 ^ 32, a, rotl32 30 b, c, d)"

fun sha1_block :: "sha1_state \<Rightarrow> byte list \<Rightarrow> sha1_state" where
  "sha1_block (h0, h1, h2, h3, h4) block =
     (let w = sha1_schedule (words32 block);
          (a, b, c, d, e) = foldl (sha1_round w) (h0, h1, h2, h3, h4) [0..<80]
      in ((h0 + a) mod 2 ^ 32, (h1 + b) mod 2 ^ 32, (h2 + c) mod 2 ^ 32,
          (h3 + d) mod 2 ^ 32, (h4 + e) mod 2 ^ 32))"


definition word32_bytes :: "u32 \<Rightarrow> byte list" where
  "word32_bytes w = [of_nat (w div 16777216), of_nat (w div 65536), of_nat (w div 256), of_nat w]"

definition sha1 :: "byte list \<Rightarrow> byte list" where
  "sha1 msg =
     (let padded = sha1_pad msg;
          (h0, h1, h2, h3, h4) =
            foldl (\<lambda>h i. sha1_block h (take 64 (drop (64 * i) padded)))
              (0x67452301, 0xEFCDAB89, 0x98BADCFE, 0x10325476, 0xC3D2E1F0)
              [0..<length padded div 64]
      in concat (map word32_bytes [h0, h1, h2, h3, h4]))"

definition base64_alphabet :: string where
  "base64_alphabet = ''ABCDEFGHIJKLMNOPQRSTUVWXYZabcdefghijklmnopqrstuvwxyz0123456789+/''"

definition b64 :: "nat \<Rightarrow> nat" where
  "b64 i = of_char (base64_alphabet ! (i mod 64))"

fun base64 :: "byte list \<Rightarrow> jsstring" where
  "base64 [] = []"
| "base64 [a] =
     (let n = unat a * 65536 in [b64 (n div 262144), b64 (n div 4096), 0x3D, 0x3D])"
| "base64 [a, b] =
     (let n = unat a * 65536 + unat b * 256
      in [b64 (n div 262144), b64 (n div 4096), b64 (n div 64), 0x3D])"
| "base64 (a # b # c # rest) =
     (let n = unat a * 65536 + unat b * 256 + unat c
      in [b64 (n div 262144), b64 (n div 4096), b64 (n div 64), b64 n] @ base64 rest)"

subsection \<open>The upgrade handler\<close>

text \<open>
  Of the request the handler reads \<open>req.url\<close> and \<open>req.headers['sec-websocket-key']\<close>
  (\<open>None\<close> when the header is absent). It writes text to the socket, ends the socket
  with a last text, or wraps the socket in a \<open>MinimalWebSocket\<close> and starts the session.
  (A second listener on the same event puts every socket into the set \<open>activeSessions\<close>,
  for the shutdown; it writes nothing and starts nothing.)
\<close>

record upgrade_request =
  req_url :: jsstring
  sec_websocket_key :: "jsstring option"

datatype upgrade_effect = Socket_write_text jsstring | Socket_end_text jsstring | Session_started

definition startsWith :: "jsstring \<Rightarrow> jsstring \<Rightarrow> bool" where
  "startsWith s p = (take (length p) s = p)"

definition crlf :: jsstring where
  "crlf = [0x0D, 0x0A]"

definition websocket_guid :: jsstring where
  "websocket_guid = js ''258EAFA5-E914-47DA-95CA-C5AB0DC85B11''"

definition accept_hash :: "jsstring \<Rightarrow> jsstring" where
  "accept_hash key = base64 (sha1 (utf8_encode (key @ websocket_guid)))"

definition switching_protocols :: "jsstring \<Rightarrow> jsstring" where
  "switching_protocols hash =
     js ''HTTP/1.1 101 Switching Protocols'' @ crlf @
     js ''Upgrade: websocket'' @ crlf @
     js ''Connection: Upgrade'' @ crlf @
     js ''Sec-WebSocket-Accept: '' @ hash @ crlf @ crlf"

text \<open>\<open>!key\<close> holds for a missing header and for an empty one.\<close>

definition upgrade :: "upgrade_request \<Rightarrow> upgrade_effect list" where
  "upgrade req =
     (if startsWith (req_url req) (js ''/ws'') then
        (case sec_websocket_key req of
           None \<Rightarrow> [Socket_end_text (js ''HTTP/1.1 400 Bad Request'' @ crlf @ crlf)]
         | Some key \<Rightarrow>
             if key = [] then [Socket_end_text (js ''HTTP/1.1 400 Bad Request'' @ crlf @ crlf)]
             else [Socket_write_text (switching_protocols (accept_hash key)), Session_started])
      else [Socket_end_text (js ''HTTP/1.1 404 Not Found'' @ crlf @ crlf)])"

section \<open>Properties of the handshake\<close>


subsection \<open>The sample key of RFC 6455, evaluated step by step\<close>

lemma replicate_rec: "replicate n x = (if n = 0 then [] else x # replicate (n - 1) x)"
  by (cases n) simp_all

lemma sample_bytes:
  "utf8_encode (js ''dGhlIHNhbXBsZSBub25jZQ=='' @ websocket_guid) =
     [100, 71, 104, 108, 73, 72, 78, 104, 98, 88, 66, 115, 90, 83, 66, 117, 98, 50, 53, 106,
     90, 81, 61, 61, 50, 53, 56, 69, 65, 70, 65, 53, 45, 69, 57, 49, 52, 45, 52, 55, 68, 65,
     45, 57, 53, 67, 65, 45, 67, 53, 65, 66, 48, 68, 67, 56, 53, 66, 49, 49]"
  by (simp add: js_def websocket_guid_def utf8_encode_def utf8_encode_cp_def)

lemma sample_pad:
  "sha1_pad
     [100, 71, 104, 108, 73, 72, 78, 104, 98, 88, 66, 115, 90, 83, 66, 117, 98, 50, 53, 106,
     90, 81, 61, 61, 50, 53, 56, 69, 65, 70, 65, 53, 45, 69, 57, 49, 52, 45, 52, 55, 68, 65,
     45, 57, 53, 67, 65, 45, 67, 53, 65, 66, 48, 68, 67, 56, 53, 66, 49, 49] =
     [100, 71, 104, 108, 73, 72, 78, 104, 98, 88, 66, 115, 90, 83, 66, 117, 98, 50, 53, 106,
     90, 81, 61, 61, 50, 53, 56, 69, 65, 70, 65, 53, 45, 69, 57, 49, 52, 45, 52, 55, 68, 65,
     45, 57, 53, 67, 65, 45, 67, 53, 65, 66, 48, 68, 67, 56, 53, 66, 49, 49, 128, 0, 0, 0, 0,
     0, 0, 0, 0, 0, 0, 0, 0, 0, 0, 0, 0, 0, 0, 0, 0, 0, 0, 0, 0, 0, 0, 0, 0, 0, 0, 0, 0, 0,
     0, 0, 0, 0, 0, 0, 0, 0, 0, 0, 0, 0, 0, 0, 0, 0, 0, 0, 0, 0, 0, 0, 0, 0, 0, 0, 0, 0, 0,
     0, 0, 0, 1, 224]"
  by (simp add: sha1_pad_def writeBigUInt64BE_def upt_rec replicate_rec)

lemma sample_schedule1:
  "sha1_schedule (words32
     [100, 71, 104, 108, 73, 72, 78, 104, 98, 88, 66, 115, 90, 83, 66, 117, 98, 50, 53, 106,
     90, 81, 61, 61, 50, 53, 56, 69, 65, 70, 65, 53, 45, 69, 57, 49, 52, 45, 52, 55, 68, 65,
     45, 57, 53, 67, 65, 45, 67, 53, 65, 66, 48, 68, 67, 56, 53, 66, 49, 49, 128, 0, 0, 0]) =
     [1682401388, 1229475432, 1649951347, 1515405941, 1647457642, 1515273533, 842348613,
     1095123253, 759511345, 875377719, 1145122105, 893600045, 1127563586, 809780024,
     893530417, 2147483648, 909942828, 619188790, 2287383617, 117128338, 1874115766,
     1175131875, 1502747054, 901747561, 845628814, 4163435780, 1966773927, 1664546322,
     3285607299, 116098809, 1941241154, 2768487864, 365801013, 1394499013, 1874245584,
     1813439660, 1306343101, 903047494, 3903753116, 1251162832, 3464898740, 1096661662,
     663941193, 2392553959, 2042897861, 1666430109, 10043928, 2325024465, 2942110617,
     4254630878, 517537771, 4027055912, 1113470580, 93729216, 2909551665, 2248896983,
     2277492040, 1046804781, 2366289761, 887221813, 181358856, 3266607578, 1821587210,
     4153629601, 3910963649, 3201394082, 1279150782, 1356423736, 3059252702, 439281382,
     758339734, 4081671435, 4077783581, 852382809, 1902502840, 2869297044, 3314851595,
     3168292426, 124912530, 4282382342]"
  by (simp add: sha1_schedule_def upt_rec rotl32_def)

lemma sample_rounds1:
  "foldl (sha1_round
     [1682401388, 1229475432, 1649951347, 1515405941, 1647457642, 1515273533, 842348613,
     1095123253, 759511345, 875377719, 1145122105, 893600045, 1127563586, 809780024,
     893530417, 2147483648, 909942828, 619188790, 2287383617, 117128338, 1874115766,
     1175131875, 1502747054, 901747561, 845628814, 4163435780, 1966773927, 1664546322,
     3285607299, 116098809, 1941241154, 2768487864, 365801013, 1394499013, 1874245584,
     1813439660, 1306343101, 903047494, 3903753116, 1251162832, 3464898740, 1096661662,
     663941193, 2392553959, 2042897861, 1666430109, 10043928, 2325024465, 2942110617,
     4254630878, 517537771, 4027055912, 1113470580, 93729216, 2909551665, 2248896983,
     2277492040, 1046804781, 2366289761, 887221813, 181358856, 3266607578, 1821587210,
     4153629601, 3910963649, 3201394082, 1279150782, 1356423736, 3059252702, 439281382,
     758339734, 4081671435, 4077783581, 852382809, 1902502840, 2869297044, 3314851595,
     3168292426, 124912530, 4282382342])
     (1732584193, 4023233417, 2562383102, 271733878, 3285377520) [0..<80] =
     (4102706214, 2203686369, 633413371, 1246086146, 2591277810)"
  by (simp add: upt_rec rotl32_def sha1_f_def sha1_k_def)

lemma sample_block1:
  "sha1_block (1732584193, 4023233417, 2562383102, 271733878, 3285377520)
     [100, 71, 104, 108, 73, 72, 78, 104, 98, 88, 66, 115, 90, 83, 66, 117, 98, 50, 53, 106,
     90, 81, 61, 61, 50, 53, 56, 69, 65, 70, 65, 53, 45, 69, 57, 49, 52, 45, 52, 55, 68, 65,
     45, 57, 53, 67, 65, 45, 67, 53, 65, 66, 48, 68, 67, 56, 53, 66, 49, 49, 128, 0, 0, 0] =
     (1540323111, 1931952490, 3195796473, 1517820024, 1581688034)"
  by (simp add: sample_schedule1 sample_rounds1 del: foldl.simps words32.simps)

lemma sample_schedule2:
  "sha1_schedule (words32
     [0, 0, 0, 0, 0, 0, 0, 0, 0, 0, 0, 0, 0, 0, 0, 0, 0, 0, 0, 0, 0, 0, 0, 0, 0, 0, 0, 0, 0,
     0, 0, 0, 0, 0, 0, 0, 0, 0, 0, 0, 0, 0, 0, 0, 0, 0, 0, 0, 0, 0, 0, 0, 0, 0, 0, 0, 0, 0,
     0, 0, 0, 0, 1, 224]) =
     [0, 0, 0, 0, 0, 0, 0, 0, 0, 0, 0, 0, 0, 0, 0, 480, 0, 0, 960, 0, 0, 1920, 0, 960, 3840,
     0, 0, 7680, 0, 3264, 15360, 1088, 0, 30720, 3840, 13056, 61440, 3840, 0, 126720, 0,
     52224, 245760, 17280, 0, 495360, 65280, 206464, 983040, 61440, 13056, 2031360, 0,
     833536, 3932160, 264960, 61440, 7929600, 1044480, 3376896, 15728640, 1032960, 61440,
     32488192, 0, 13369344, 62976000, 4423680, 0, 126812160, 16711680, 52862464, 251658240,
     15790080, 3357696, 520062976, 0, 213420032, 1006694400, 67783168]"
  by (simp add: sha1_schedule_def upt_rec rotl32_def)

lemma sample_rounds2:
  "foldl (sha1_round
     [0, 0, 0, 0, 0, 0, 0, 0, 0, 0, 0, 0, 0, 0, 0, 480, 0, 0, 960, 0, 0, 1920, 0, 960, 3840,
     0, 0, 7680, 0, 3264, 15360, 1088, 0, 30720, 3840, 13056, 61440, 3840, 0, 126720, 0,
     52224, 245760, 17280, 0, 495360, 65280, 206464, 983040, 61440, 13056, 2031360, 0,
     833536, 3932160, 264960, 61440, 7929600, 1044480, 3376896, 15728640, 1032960, 61440,
     32488192, 0, 13369344, 62976000, 4423680, 0, 126812160, 16711680, 52862464, 251658240,
     15790080, 3357696, 520062976, 0, 213420032, 1006694400, 67783168])
     (1540323111, 1931952490, 3195796473, 1517820024, 1581688034) [0..<80] =
     (1470814213, 1295715756, 3531229709, 1958756557, 1417158664)"
  by (simp add: upt_rec rotl32_def sha1_f_def sha1_k_def)

lemma sample_block2:
  "sha1_block (1540323111, 1931952490, 3195796473, 1517820024, 1581688034)
     [0, 0, 0, 0, 0, 0, 0, 0, 0, 0, 0, 0, 0, 0, 0, 0, 0, 0, 0, 0, 0, 0, 0, 0, 0, 0, 0, 0, 0,
     0, 0, 0, 0, 0, 0, 0, 0, 0, 0, 0, 0, 0, 0, 0, 0, 0, 0, 0, 0, 0, 0, 0, 0, 0, 0, 0, 0, 0,
     0, 0, 0, 0, 1, 224] =
     (3011137324, 3227668246, 2432058886, 3476576581, 2998846698)"
  by (simp add: sample_schedule2 sample_rounds2 del: foldl.simps words32.simps)

lemma sample_sha1:
  "sha1
     [100, 71, 104, 108, 73, 72, 78, 104, 98, 88, 66, 115, 90, 83, 66, 117, 98, 50, 53, 106,
     90, 81, 61, 61, 50, 53, 56, 69, 65, 70, 65, 53, 45, 69, 57, 49, 52, 45, 52, 55, 68, 65,
     45, 57, 53, 67, 65, 45, 67, 53, 65, 66, 48, 68, 67, 56, 53, 66, 49, 49] =
     [179, 122, 79, 44, 192, 98, 79, 22, 144, 246, 70, 6, 207, 56, 89, 69, 178, 190, 196,
     234]"
  by (simp add: sha1_def sample_pad upt_rec sample_block1 sample_block2 word32_bytes_def
      del: sha1_block.simps)

lemma sample_base64:
  "base64
     [179, 122, 79, 44, 192, 98, 79, 22, 144, 246, 70, 6, 207, 56, 89, 69, 178, 190, 196,
     234] =
     js ''s3pPLMBiTxaQ9kYGzzhZRbK+xOo=''"
  by (simp add: b64_def base64_alphabet_def js_def)

lemma sample_accept: "accept_hash (js ''dGhlIHNhbXBsZSBub25jZQ=='') = js ''s3pPLMBiTxaQ9kYGzzhZRbK+xOo=''"
  by (simp only: accept_hash_def sample_bytes sample_sha1 sample_base64)

subsection \<open>The accept value and the rejections\<close>



text \<open>
  The path of a request URL, as the claims speak of it: the URL up to its query string.
\<close>

definition url_path :: "jsstring \<Rightarrow> jsstring" where
  "url_path url = takeWhile (\<lambda>c. c \<noteq> 0x3F) url"

lemma endpoint_path_starts_with_ws:
  assumes "url_path url = js ''/ws''"
  shows "startsWith url (js ''/ws'')"
proof -
  have "url = url_path url @ dropWhile (\<lambda>c. c \<noteq> 0x3F) url"
    by (simp add: url_path_def)
  with assms have "url = js ''/ws'' @ dropWhile (\<lambda>c. c \<noteq> 0x3F) url" by simp
  then have "take (length (js ''/ws'')) url = js ''/ws''"
    by (metis append_eq_conv_conj)
  then show ?thesis by (simp add: startsWith_def)
qed

lemma other_path_not_ws:
  assumes "\<not> startsWith (url_path url) (js ''/ws'')"
  shows "\<not> startsWith url (js ''/ws'')"
proof
  assume "startsWith url (js ''/ws'')"
  then have "url = js ''/ws'' @ drop (length (js ''/ws'')) url"
    by (metis append_take_drop_id startsWith_def)
  then obtain r where u: "url = 0x2F # 0x77 # 0x73 # r" by (simp add: js_def)
  have "startsWith (url_path (0x2F # 0x77 # 0x73 # r)) (js ''/ws'')"
    by (simp add: url_path_def startsWith_def js_def)
  with u assms show False by simp
qed

text \<open>
  Claim C9, as amended. The handler takes every URL that starts with \<open>/ws\<close> for the
  WebSocket endpoint: the path \<open>/ws\<close> itself, with or without a query string, and equally
  a longer path such as \<open>/wsx\<close>. An upgrade request on such a URL without a
  \<open>Sec-WebSocket-Key\<close> header (or with an empty one) is answered \<open>400 Bad Request\<close> and the
  socket is ended. An upgrade request on a URL that does not start with \<open>/ws\<close> -- every
  path that does not begin with \<open>/ws\<close> -- is answered \<open>404 Not Found\<close> and the socket is
  ended, and \<open>404\<close> is the answer in no other case. In a rejection that is all the handler
  does: nothing else is written and no session is started.
\<close>

theorem upgrade_rejections:
  "(startsWith (req_url req) (js ''/ws'') \<and> sec_websocket_key req = None \<longrightarrow>
      upgrade req = [Socket_end_text (js ''HTTP/1.1 400 Bad Request'' @ crlf @ crlf)])
   \<and> (\<not> startsWith (req_url req) (js ''/ws'') \<longrightarrow>
      upgrade req = [Socket_end_text (js ''HTTP/1.1 404 Not Found'' @ crlf @ crlf)])
   \<and> (sec_websocket_key req = None \<or> \<not> startsWith (req_url req) (js ''/ws'') \<longrightarrow>
      Session_started \<notin> set (upgrade req)
      \<and> (\<forall>t. Socket_write_text t \<notin> set (upgrade req)))
   \<and> (url_path (req_url req) = js ''/ws'' \<and> sec_websocket_key req = None \<longrightarrow>
      upgrade req = [Socket_end_text (js ''HTTP/1.1 400 Bad Request'' @ crlf @ crlf)])
   \<and> (\<not> startsWith (url_path (req_url req)) (js ''/ws'') \<longrightarrow>
      upgrade req = [Socket_end_text (js ''HTTP/1.1 404 Not Found'' @ crlf @ crlf)])
   \<and> (upgrade req = [Socket_end_text (js ''HTTP/1.1 404 Not Found'' @ crlf @ crlf)])
       = (\<not> startsWith (req_url req) (js ''/ws''))
   \<and> (upgrade req = [Socket_end_text (js ''HTTP/1.1 400 Bad Request'' @ crlf @ crlf)])
       = (startsWith (req_url req) (js ''/ws'')
          \<and> (sec_websocket_key req = None \<or> sec_websocket_key req = Some []))"
proof -
  have ne: "js ''HTTP/1.1 400 Bad Request'' @ crlf @ crlf \<noteq> js ''HTTP/1.1 404 Not Found'' @ crlf @ crlf"
    by (simp add: js_def)
  have basic: "(startsWith (req_url req) (js ''/ws'') \<and> sec_websocket_key req = None \<longrightarrow>
      upgrade req = [Socket_end_text (js ''HTTP/1.1 400 Bad Request'' @ crlf @ crlf)])
   \<and> (\<not> startsWith (req_url req) (js ''/ws'') \<longrightarrow>
      upgrade req = [Socket_end_text (js ''HTTP/1.1 404 Not Found'' @ crlf @ crlf)])
   \<and> (sec_websocket_key req = None \<or> \<not> startsWith (req_url req) (js ''/ws'') \<longrightarrow>
      Session_started \<notin> set (upgrade req)
      \<and> (\<forall>t. Socket_write_text t \<notin> set (upgrade req)))"
    by (simp add: upgrade_def)
  have p1: "url_path (req_url req) = js ''/ws'' \<and> sec_websocket_key req = None \<longrightarrow>
      upgrade req = [Socket_end_text (js ''HTTP/1.1 400 Bad Request'' @ crlf @ crlf)]"
    using basic endpoint_path_starts_with_ws [of "req_url req"] by blast
  have p2: "\<not> startsWith (url_path (req_url req)) (js ''/ws'') \<longrightarrow>
      upgrade req = [Socket_end_text (js ''HTTP/1.1 404 Not Found'' @ crlf @ crlf)]"
    using basic other_path_not_ws [of "req_url req"] by blast
  have e404: "(upgrade req = [Socket_end_text (js ''HTTP/1.1 404 Not Found'' @ crlf @ crlf)])
       = (\<not> startsWith (req_url req) (js ''/ws''))"
    using ne by (auto simp: upgrade_def split: option.splits)
  have e400: "(upgrade req = [Socket_end_text (js ''HTTP/1.1 400 Bad Request'' @ crlf @ crlf)])
       = (startsWith (req_url req) (js ''/ws'')
          \<and> (sec_websocket_key req = None \<or> sec_websocket_key req = Some []))"
    using ne by (auto simp: upgrade_def split: option.splits)
  from basic p1 p2 e404 e400 show ?thesis by blast
qed

theorem upgrade_rejections_witness:
  "upgrade \<lparr>req_url = js ''/ws?cols=80&rows=24'', sec_websocket_key = None\<rparr>
     = [Socket_end_text (js ''HTTP/1.1 400 Bad Request'' @ crlf @ crlf)]
   \<and> upgrade \<lparr>req_url = js ''/health'', sec_websocket_key = Some (js ''dGhlIHNhbXBsZSBub25jZQ=='')\<rparr>
     = [Socket_end_text (js ''HTTP/1.1 404 Not Found'' @ crlf @ crlf)]"
proof -
  have a: "url_path (js ''/ws?cols=80&rows=24'') = js ''/ws''" by (simp add: url_path_def js_def)
  have b: "\<not> startsWith (url_path (js ''/health'')) (js ''/ws'')"
    by (simp add: url_path_def startsWith_def js_def)
  from a b
    upgrade_rejections [of "\<lparr>req_url = js ''/ws?cols=80&rows=24'', sec_websocket_key = None\<rparr>"]
    upgrade_rejections [of "\<lparr>req_url = js ''/health'',
                               sec_websocket_key = Some (js ''dGhlIHNhbXBsZSBub25jZQ=='')\<rparr>"]
  show ?thesis by simp
qed

text \<open>
  \<open>/wsx\<close> is another path than \<open>/ws\<close>, and an upgrade request on it is never answered
  \<open>404\<close>: without a key it is answered \<open>400\<close>, with a key the handshake is completed and a
  session is started.
\<close>

theorem upgrade_other_path_counterexample:
  "url_path (js ''/wsx'') \<noteq> js ''/ws''
   \<and> upgrade \<lparr>req_url = js ''/wsx'', sec_websocket_key = None\<rparr>
     = [Socket_end_text (js ''HTTP/1.1 400 Bad Request'' @ crlf @ crlf)]
   \<and> upgrade \<lparr>req_url = js ''/wsx'', sec_websocket_key = Some (js ''dGhlIHNhbXBsZSBub25jZQ=='')\<rparr>
     = [Socket_write_text (switching_protocols (js ''s3pPLMBiTxaQ9kYGzzhZRbK+xOo='')), Session_started]"
proof -
  have s: "startsWith (js ''/wsx'') (js ''/ws'')" by (simp add: startsWith_def js_def)
  have k: "js ''dGhlIHNhbXBsZSBub25jZQ=='' \<noteq> []" by (simp add: js_def)
  have p: "url_path (js ''/wsx'') \<noteq> js ''/ws''" by (simp add: url_path_def js_def)
  from s k p show ?thesis by (simp add: upgrade_def sample_accept)
qed

section \<open>The session bridge: output relay and process exit\<close>

text \<open>
  \<open>handlePTYSession\<close> of bin/ghostty-web.js and the \<open>websocket\<close> handlers of
  demo/server/pty-server.ts are sets of event listeners. Each listener is a function from
  the event's argument to what it does, in order: \<open>ws.send(text)\<close>, \<open>ws.close()\<close>, a write to
  the child's standard input, \<open>kill()\<close>. Errors of these calls are caught and dropped by
  the source, so a call is only recorded.
\<close>

datatype session_effect = Ws_send jsstring | Ws_close | Stdin_write jsstring | Process_kill

text \<open>What a call on the \<open>MinimalWebSocket\<close> of bin/ghostty-web.js puts on the socket.\<close>

fun ws_wire :: "session_effect \<Rightarrow> ws_effect list" where
  "ws_wire (Ws_send s) = [Socket_write (send s)]"
| "ws_wire Ws_close = close"
| "ws_wire _ = []"





subsection \<open>bin/ghostty-web.js\<close>


definition pty_stderr_data :: "byte list \<Rightarrow> session_effect list" where
  "pty_stderr_data data =
     [Ws_send (0x5C # js ''x1b[31m'' @ toString data @ 0x5C # js ''x1b[0m'')]"

definition pty_on_exit :: "nat option \<Rightarrow> session_effect list" where
  "pty_on_exit code = [Ws_close]"

definition ws_on_close :: "session_effect list" where
  "ws_on_close = [Process_kill]"

subsection \<open>demo/server/pty-server.ts\<close>

text \<open>
  \<open>createShell\<close> calls \<open>setEncoding('utf8')\<close> on both streams, so \<open>data\<close> is a string and
  \<open>data.toString()\<close> is \<open>data\<close>. The exit code is a number, or \<open>null\<close> when a signal
  ended the process.
\<close>

fun decimal :: "nat \<Rightarrow> jsstring" where
  "decimal n = (if n < 10 then [0x30 + n] else decimal (n div 10) @ [0x30 + n mod 10])"

declare decimal.simps [simp del]

definition exit_code_text :: "nat option \<Rightarrow> jsstring" where
  "exit_code_text code = (case code of None \<Rightarrow> js ''null'' | Some n \<Rightarrow> decimal n)"


definition shell_stderr_data :: "jsstring \<Rightarrow> session_effect list" where
  "shell_stderr_data data = [Ws_send (0x1B # js ''[31m'' @ data @ 0x1B # js ''[0m'')]"

definition shell_on_exit :: "nat option \<Rightarrow> session_effect list" where
  "shell_on_exit code =
     [Ws_send (crlf @ 0x1B # js ''[1;33mShell session ended (exit code: '' @ exit_code_text code
               @ js '')'' @ 0x1B # js ''[0m'' @ crlf),
      Ws_close]"


subsection \<open>Text made of title sequences and other text\<close>






section \<open>Properties of the output relay\<close>


















text \<open>
  Claim C6 (the code departs from it). In bin/ghostty-web.js every standard-error chunk is
  sent between the literal texts \<open>\x1b[31m\<close> and \<open>\x1b[0m\<close>, each starting with a
  backslash (byte \<open>0x5C\<close>) followed by \<open>x1b\<close>: no ESC byte is sent. For the chunk \<open>oops\<close>
  the frame on the socket is computed below. pty-server.ts, which the comment in
  bin/ghostty-web.js refers to, sends ESC \<open>[31m\<close>, the chunk, ESC \<open>[0m\<close>.
\<close>

theorem stderr_escape_is_literal_text:
  "pty_stderr_data data
     = [Ws_send ([0x5C, 0x78, 0x31, 0x62, 0x5B, 0x33, 0x31, 0x6D] @ toString data
                 @ [0x5C, 0x78, 0x31, 0x62, 0x5B, 0x30, 0x6D])]
   \<and> concat (map ws_wire (pty_stderr_data [0x6F, 0x6F, 0x70, 0x73]))
     = [Socket_write [0x81, 0x13, 0x5C, 0x78, 0x31, 0x62, 0x5B, 0x33, 0x31, 0x6D,
                      0x6F, 0x6F, 0x70, 0x73, 0x5C, 0x78, 0x31, 0x62, 0x5B, 0x30, 0x6D]]
   \<and> shell_stderr_data str = [Ws_send ([0x1B, 0x5B, 0x33, 0x31, 0x6D] @ str @ [0x1B, 0x5B, 0x30, 0x6D])]"
  by (simp add: pty_stderr_data_def shell_stderr_data_def js_def toString_def send_def send_frame_def
      utf8_encode_def utf8_encode_cp_def)

text \<open>
  Claim C7 (the code departs from it). When the child process of bin/ghostty-web.js exits,
  whatever its exit code, the listener only calls \<open>ws.close()\<close>: the socket gets the CLOSE
  frame \<open>0x88 0x00\<close> and is ended, and no TEXT frame is sent. pty-server.ts sends the
  notice with the exit code first and closes then.
\<close>

theorem exit_closes_without_notice:
  "pty_on_exit code = [Ws_close]
   \<and> concat (map ws_wire (pty_on_exit code)) = [Socket_write [0x88, 0x00], Socket_end]
   \<and> shell_on_exit (Some 0)
       = [Ws_send (crlf @ 0x1B # js ''[1;33mShell session ended (exit code: 0)'' @ 0x1B # js ''[0m'' @ crlf),
          Ws_close]"
  by (simp add: pty_on_exit_def close_def shell_on_exit_def exit_code_text_def decimal.simps js_def)

section \<open>The session bridge: input relay\<close>

subsection \<open>\<open>JSON.parse\<close>\<close>

text \<open>
  \<open>JSON.parse\<close> is the engine's: the grammar of ECMA-404, with \<open>None\<close> for the
  \<open>SyntaxError\<close> it throws. A value is \<open>null\<close>, a boolean, a number, a string, an array or
  an object; an object is the list of its members as written (of two members with one
  name the later one is the property). A number is kept as the text that denotes it: its
  value is a double, and this development computes with no double.
\<close>

datatype js_value =
    JNull | JBool bool | JNum jsstring | JStr jsstring
  | JArr "js_value list" | JObj "(jsstring \<times> js_value) list"

datatype token =
    T_lbrace | T_rbrace | T_lbrack | T_rbrack | T_colon | T_comma
  | T_string jsstring | T_atom js_value

text \<open>
  The lexer. White space is space, tab, line feed and carriage return. A string ends at
  the first unescaped quote; control characters below \<open>0x20\<close> are not allowed in it, an
  escape is one of \<open>\" \\ \/ \b \f \n \r \t\<close> or \<open>\u\<close> and four hexadecimal digits; an
  escaped surrogate pair is one code point. A number is an optional minus, \<open>0\<close> or digits
  that do not start with \<open>0\<close>, an optional fraction, an optional exponent.
\<close>

definition is_ws :: "nat \<Rightarrow> bool" where
  "is_ws c = (c = 0x20 \<or> c = 0x09 \<or> c = 0x0A \<or> c = 0x0D)"

definition is_digit :: "nat \<Rightarrow> bool" where
  "is_digit c = (0x30 \<le> c \<and> c \<le> 0x39)"

definition hex_digit :: "nat \<Rightarrow> nat option" where
  "hex_digit c =
     (if 0x30 \<le> c \<and> c \<le> 0x39 then Some (c - 0x30)
      else if 0x41 \<le> c \<and> c \<le> 0x46 then Some (c - 0x37)
      else if 0x61 \<le> c \<and> c \<le> 0x66 then Some (c - 0x57)
      else None)"

definition hex4 :: "nat \<Rightarrow> nat \<Rightarrow> nat \<Rightarrow> nat \<Rightarrow> nat option" where
  "hex4 a b c d =
     (case (hex_digit a, hex_digit b, hex_digit c, hex_digit d) of
        (Some w, Some x, Some y, Some z) \<Rightarrow> Some (w * 4096 + x * 256 + y * 16 + z)
      | _ \<Rightarrow> None)"

definition escape_char :: "nat \<Rightarrow> nat option" where
  "escape_char e =
     (if e = 0x22 \<or> e = 0x5C \<or> e = 0x2F then Some e
      else if e = 0x62 then Some 0x08
      else if e = 0x66 then Some 0x0C
      else if e = 0x6E then Some 0x0A
      else if e = 0x72 then Some 0x0D
      else if e = 0x74 then Some 0x09
      else None)"

fun scan_string :: "jsstring \<Rightarrow> (jsstring \<times> jsstring) option" where
  "scan_string [] = None"
| "scan_string (c # cs) =
     (if c = 0x22 then Some ([], cs)
      else if c = 0x5C then
        (case cs of
           [] \<Rightarrow> None
         | e # r \<Rightarrow>
             if e = 0x75 then
               (case r of
                  a # b # c' # d # r' \<Rightarrow>
                    (case hex4 a b c' d of
                       None \<Rightarrow> None
                     | Some u \<Rightarrow> map_option (apfst ((#) u)) (scan_string r'))
                | _ \<Rightarrow> None)
             else
               (case escape_char e of
                  None \<Rightarrow> None
                | Some u \<Rightarrow> map_option (apfst ((#) u)) (scan_string r)))
      else if c < 0x20 then None
      else map_option (apfst ((#) c)) (scan_string cs))"

fun combine_surrogates :: "jsstring \<Rightarrow> jsstring" where
  "combine_surrogates (h # l # rest) =
     (if 0xD800 \<le> h \<and> h < 0xDC00 \<and> 0xDC00 \<le> l \<and> l < 0xE000
      then (0x10000 + (h - 0xD800) * 0x400 + (l - 0xDC00)) # combine_surrogates rest
      else h # combine_surrogates (l # rest))"
| "combine_surrogates s = s"

definition scan_exponent :: "jsstring \<Rightarrow> jsstring \<Rightarrow> (jsstring \<times> jsstring) option" where
  "scan_exponent acc s =
     (case s of
        [] \<Rightarrow> Some (acc, s)
      | c # r \<Rightarrow>
          if c = 0x65 \<or> c = 0x45 then
            (let sg = takeWhile (\<lambda>x. x = 0x2B \<or> x = 0x2D) (take 1 r);
                 r1 = drop (length sg) r
             in if r1 \<noteq> [] \<and> is_digit (hd r1)
                then Some (acc @ c # sg @ takeWhile is_digit r1, dropWhile is_digit r1)
                else None)
          else Some (acc, s))"

definition scan_fraction :: "jsstring \<Rightarrow> jsstring \<Rightarrow> (jsstring \<times> jsstring) option" where
  "scan_fraction acc s =
     (case s of
        [] \<Rightarrow> Some (acc, s)
      | c # r \<Rightarrow>
          if c = 0x2E then
            (if r \<noteq> [] \<and> is_digit (hd r)
             then scan_exponent (acc @ c # takeWhile is_digit r) (dropWhile is_digit r)
             else None)
          else scan_exponent acc s)"

definition scan_integer :: "jsstring \<Rightarrow> jsstring \<Rightarrow> (jsstring \<times> jsstring) option" where
  "scan_integer sg s =
     (case s of
        [] \<Rightarrow> None
      | c # r \<Rightarrow>
          if c = 0x30 then scan_fraction (sg @ [c]) r
          else if 0x31 \<le> c \<and> c \<le> 0x39
          then scan_fraction (sg @ c # takeWhile is_digit r) (dropWhile is_digit r)
          else None)"

definition scan_number :: "jsstring \<Rightarrow> (jsstring \<times> jsstring) option" where
  "scan_number s =
     (case s of
        [] \<Rightarrow> None
      | c # r \<Rightarrow> if c = 0x2D then scan_integer [c] r else scan_integer [] s)"

definition next_token :: "jsstring \<Rightarrow> (token \<times> jsstring) option" where
  "next_token s =
     (case s of
        [] \<Rightarrow> None
      | c # r \<Rightarrow>
          if c = 0x7B then Some (T_lbrace, r)
          else if c = 0x7D then Some (T_rbrace, r)
          else if c = 0x5B then Some (T_lbrack, r)
          else if c = 0x5D then Some (T_rbrack, r)
          else if c = 0x3A then Some (T_colon, r)
          else if c = 0x2C then Some (T_comma, r)
          else if c = 0x22 then map_option (apfst (T_string \<circ> combine_surrogates)) (scan_string r)
          else if take 4 s = js ''true'' then Some (T_atom (JBool True), drop 4 s)
          else if take 5 s = js ''false'' then Some (T_atom (JBool False), drop 5 s)
          else if take 4 s = js ''null'' then Some (T_atom JNull, drop 4 s)
          else map_option (apfst (T_atom \<circ> JNum)) (scan_number s))"

lemma scan_string_shorter: "scan_string s = Some (v, rest) \<Longrightarrow> length rest < length s"
proof (induction s arbitrary: v rest rule: scan_string.induct)
  case 1
  then show ?case by simp
next
  case (2 c cs)
  then show ?case
    by (fastforce split: if_splits list.splits option.splits)
qed

lemma scan_exponent_shorter: "scan_exponent acc s = Some (l, rest) \<Longrightarrow> length rest \<le> length s"
  by (auto simp: scan_exponent_def Let_def split: list.splits if_splits
      intro: le_trans [OF length_dropWhile_le])

lemma scan_fraction_shorter: "scan_fraction acc s = Some (l, rest) \<Longrightarrow> length rest \<le> length s"
  by (auto simp: scan_fraction_def split: list.splits if_splits
      dest!: scan_exponent_shorter intro: le_trans [OF _ length_dropWhile_le] le_SucI)


lemma scan_integer_shorter: "scan_integer sg s = Some (l, rest) \<Longrightarrow> length rest < length s"
proof (cases s)
  case Nil
  then show "scan_integer sg s = Some (l, rest) \<Longrightarrow> ?thesis" by (simp add: scan_integer_def)
next
  case (Cons c r)
  assume a: "scan_integer sg s = Some (l, rest)"
  with Cons have "scan_fraction (sg @ [c]) r = Some (l, rest)
     \<or> scan_fraction (sg @ c # takeWhile is_digit r) (dropWhile is_digit r) = Some (l, rest)"
    by (auto simp: scan_integer_def split: if_splits)
  then have "length rest \<le> length r"
  proof
    assume "scan_fraction (sg @ [c]) r = Some (l, rest)"
    then show ?thesis by (rule scan_fraction_shorter)
  next
    assume "scan_fraction (sg @ c # takeWhile is_digit r) (dropWhile is_digit r) = Some (l, rest)"
    then have "length rest \<le> length (dropWhile is_digit r)" by (rule scan_fraction_shorter)
    also have "\<dots> \<le> length r" by (rule length_dropWhile_le)
    finally show ?thesis .
  qed
  with Cons show ?thesis by simp
qed

lemma scan_number_shorter: "scan_number s = Some (l, rest) \<Longrightarrow> length rest < length s"
  by (cases s) (auto simp: scan_number_def split: if_splits dest: scan_integer_shorter)

lemma next_token_shorter: "next_token s = Some (t, rest) \<Longrightarrow> length rest < length s"
  by (cases s)
     (auto simp: next_token_def split: if_splits dest: scan_string_shorter scan_number_shorter)

function tokens :: "jsstring \<Rightarrow> token list option" where
  "tokens s =
     (case dropWhile is_ws s of
        [] \<Rightarrow> Some []
      | c # r \<Rightarrow>
          (case next_token (c # r) of
             None \<Rightarrow> None
           | Some (t, rest) \<Rightarrow> map_option ((#) t) (tokens rest)))"
  by pat_completeness auto
termination
proof (relation "measure length")
  show "wf (measure length)" by simp
next
  fix s :: jsstring and c r x t rest
  assume d: "dropWhile is_ws s = c # r" and n: "next_token (c # r) = Some x" and x: "(t, rest) = x"
  from n x have "length rest < length (c # r)" by (auto dest: next_token_shorter)
  also have "\<dots> \<le> length s" using length_dropWhile_le [of is_ws s] d by simp
  finally show "(rest, s) \<in> measure length" by simp
qed

declare tokens.simps [simp del]

text \<open>
  The parser, one token at a time: the arrays and objects that are still open, innermost
  first, and what may come next.
\<close>

datatype container =
    In_array "js_value list"
  | In_object "(jsstring \<times> js_value) list"
  | In_member "(jsstring \<times> js_value) list" jsstring

datatype expect = Value | Value_or_end | Key_or_end | Key | Colon | Separator | Done js_value

fun close_value :: "js_value \<Rightarrow> container list \<Rightarrow> (container list \<times> expect) option" where
  "close_value v [] = Some ([], Done v)"
| "close_value v (In_array vs # st) = Some (In_array (vs @ [v]) # st, Separator)"
| "close_value v (In_member ms k # st) = Some (In_object (ms @ [(k, v)]) # st, Separator)"
| "close_value v (In_object ms # st) = None"

definition open_value :: "container list \<Rightarrow> token \<Rightarrow> (container list \<times> expect) option" where
  "open_value st t =
     (case t of
        T_lbrack \<Rightarrow> Some (In_array [] # st, Value_or_end)
      | T_lbrace \<Rightarrow> Some (In_object [] # st, Key_or_end)
      | T_string s \<Rightarrow> close_value (JStr s) st
      | T_atom v \<Rightarrow> close_value v st
      | _ \<Rightarrow> None)"

definition end_array :: "container list \<Rightarrow> (container list \<times> expect) option" where
  "end_array st = (case st of In_array vs # st' \<Rightarrow> close_value (JArr vs) st' | _ \<Rightarrow> None)"

definition end_object :: "container list \<Rightarrow> (container list \<times> expect) option" where
  "end_object st = (case st of In_object ms # st' \<Rightarrow> close_value (JObj ms) st' | _ \<Rightarrow> None)"

definition read_key :: "container list \<Rightarrow> token \<Rightarrow> (container list \<times> expect) option" where
  "read_key st t =
     (case (st, t) of
        (In_object ms # st', T_string k) \<Rightarrow> Some (In_member ms k # st', Colon)
      | _ \<Rightarrow> None)"

definition parse_step :: "container list \<times> expect \<Rightarrow> token \<Rightarrow> (container list \<times> expect) option" where
  "parse_step se t =
     (case se of (st, e) \<Rightarrow>
        (case e of
           Value \<Rightarrow> open_value st t
         | Value_or_end \<Rightarrow> (if t = T_rbrack then end_array st else open_value st t)
         | Key_or_end \<Rightarrow> (if t = T_rbrace then end_object st else read_key st t)
         | Key \<Rightarrow> read_key st t
         | Colon \<Rightarrow> (if t = T_colon then Some (st, Value) else None)
         | Separator \<Rightarrow>
             (case st of
                In_array vs # st' \<Rightarrow>
                  (if t = T_comma then Some (st, Value)
                   else if t = T_rbrack then end_array st else None)
              | In_object ms # st' \<Rightarrow>
                  (if t = T_comma then Some (st, Key)
                   else if t = T_rbrace then end_object st else None)
              | _ \<Rightarrow> None)
         | Done v \<Rightarrow> None))"

fun parse_tokens :: "container list \<times> expect \<Rightarrow> token list \<Rightarrow> js_value option" where
  "parse_tokens se [] = (case se of ([], Done v) \<Rightarrow> Some v | _ \<Rightarrow> None)"
| "parse_tokens se (t # ts) =
     (case parse_step se t of None \<Rightarrow> None | Some se' \<Rightarrow> parse_tokens se' ts)"

definition JSON_parse :: "jsstring \<Rightarrow> js_value option" where
  "JSON_parse text =
     (case tokens text of None \<Rightarrow> None | Some ts \<Rightarrow> parse_tokens ([], Value) ts)"

subsection \<open>What the listeners do with a parsed message\<close>











section \<open>Properties of the input relay\<close>

lemmas lexer_defs = tokens.simps js_def is_ws_def next_token_def scan_number_def scan_integer_def
  scan_fraction_def scan_exponent_def is_digit_def

lemmas parser_defs = JSON_parse_def parse_step_def open_value_def read_key_def end_object_def
  end_array_def hex4_def hex_digit_def escape_char_def



text \<open>The parser on texts that are JSON and on texts that are not.\<close>

lemma JSON_parse_examples:
  \<open>JSON_parse (js ''ls -la'') = None\<close>
  \<open>JSON_parse (js ''42'') = Some (JNum (js ''42''))\<close>
  \<open>JSON_parse (js '' [1, "aA", {"k": [true, null]}] '')
   = Some (JArr [JNum (js ''1''), JStr (js ''aA''), JObj [(js ''k'', JArr [JBool True, JNull])]])\<close>
  \<open>JSON_parse (js ''01'') = None\<close>
  \<open>JSON_parse (js ''[1,]'') = None\<close>
  \<open>JSON_parse (js ''{"a":1,}'') = None\<close>
  \<open>JSON_parse (js ''-1.5e+3'') = Some (JNum (js ''-1.5e+3''))\<close>
  \<open>JSON_parse (js ''1.'') = None\<close>
  \<open>JSON_parse [] = None\<close>
  \<open>JSON_parse (js ''{}x'') = None\<close>
  \<open>JSON_parse (js ''[[]]'') = Some (JArr [JArr []])\<close>
  \<open>JSON_parse [0x22, 0x61, 0x5C, 0x6E, 0x5C, 0x75, 0x30, 0x30, 0x34, 0x31, 0x22] = Some (JStr [0x61, 0x0A, 0x41])\<close>
  by (simp_all add: lexer_defs parser_defs)







end
